theory Spec2Isabelle
  imports Main "HOL-Library.Sublist"
begin

section \<open>Data model of \<open>google/adk/runners.py\<close>\<close>

subsection \<open>Agent tree\<close>

text \<open>
  A toolset (\<open>BaseToolset\<close>) is a shared object; the Python \<open>set\<close> compares such objects
  by identity, so a toolset is represented by its identity. A plain tool is a callable;
  the flag says whether one of its parameters is annotated \<open>LiveRequestQueue\<close>.
\<close>

type_synonym toolset = nat

datatype tool_union = Toolset toolset | Tool string bool

text \<open>
  \<open>LlmAgent\<close> is the only variant that carries a model, the
  \<open>disallow_transfer_to_parent\<close> flag and a \<open>tools\<close> list; every other \<open>BaseAgent\<close>
  has a name and sub-agents only.
\<close>

datatype agent_variant =
    LlmAgent string bool "tool_union list"
  | OtherAgent

datatype agent = Agent (name: string) (variant: agent_variant) (sub_agents: "agent list")

text \<open>
  An agent object of the tree is referred to by its position: the list of child indices
  leading from the root to it. The root is \<open>[]\<close>, and \<open>parent_agent\<close> of a position is the
  position without its last index (\<open>None\<close> for the root, which has no parent).
\<close>

type_synonym agent_ref = "nat list"

fun agent_at :: "agent \<Rightarrow> agent_ref \<Rightarrow> agent option" where
  "agent_at a [] = Some a"
| "agent_at a (i # p) =
     (if i < length (sub_agents a) then agent_at (sub_agents a ! i) p else None)"

definition parent_agent :: "agent_ref \<Rightarrow> agent_ref option" where
  "parent_agent p = (if p = [] then None else Some (butlast p))"

fun isinstance_LlmAgent :: "agent \<Rightarrow> bool" where
  "isinstance_LlmAgent (Agent n (LlmAgent m d ts) subs) = True"
| "isinstance_LlmAgent (Agent n OtherAgent subs) = False"

fun disallow_transfer_to_parent :: "agent \<Rightarrow> bool" where
  "disallow_transfer_to_parent (Agent n (LlmAgent m d ts) subs) = d"
| "disallow_transfer_to_parent (Agent n OtherAgent subs) = False"

fun tools :: "agent \<Rightarrow> tool_union list" where
  "tools (Agent n (LlmAgent m d ts) subs) = ts"
| "tools (Agent n OtherAgent subs) = []"

fun canonical_model :: "agent \<Rightarrow> string" where
  "canonical_model (Agent n (LlmAgent m d ts) subs) = m"
| "canonical_model (Agent n OtherAgent subs) = []"

text \<open>
  Modelled from the spec: \<open>BaseAgent.find_agent\<close> and \<open>BaseAgent.find_sub_agent\<close> are
  called by the runner but defined in \<open>agents/base_agent.py\<close>. \<open>find_agent\<close> searches
  the whole tree by exact name, the node itself first; \<open>find_sub_agent\<close> searches below
  the node (at any depth, as the walk "through every ancestor to the root" and the
  chain root, A, B of the testable properties require). Both return the first match in
  pre-order, or \<open>None\<close>.
\<close>

fun find_agent :: "agent \<Rightarrow> string \<Rightarrow> agent_ref option"
  and find_in_sub_agents :: "agent list \<Rightarrow> nat \<Rightarrow> string \<Rightarrow> agent_ref option" where
  "find_agent (Agent n v subs) nm =
     (if n = nm then Some [] else find_in_sub_agents subs 0 nm)"
| "find_in_sub_agents [] i nm = None"
| "find_in_sub_agents (a # as) i nm =
     (case find_agent a nm of
        Some p \<Rightarrow> Some (i # p)
      | None \<Rightarrow> find_in_sub_agents as (Suc i) nm)"

definition find_sub_agent :: "agent \<Rightarrow> string \<Rightarrow> agent_ref option" where
  "find_sub_agent a nm = find_in_sub_agents (sub_agents a) 0 nm"

fun agent_names :: "agent \<Rightarrow> string list" where
  "agent_names (Agent n v subs) = n # concat (map agent_names subs)"

subsection \<open>Events and sessions\<close>

text \<open>
  A \<open>types.Part\<close> carries one of: text, inline binary data, a function call or a
  function response (the last two identified by the call id). \<open>Content.parts\<close> is a
  list; Python's \<open>None\<close> there is read as the empty list, the only test the runner
  applies to it being \<open>not new_message.parts\<close>.
\<close>

datatype part =
    Text string
  | InlineData string
  | FunctionCall string
  | FunctionResponse string

record content =
  role :: string
  parts :: "part list"

record event_actions =
  state_delta :: "(string \<times> string) list"

text \<open>
  The fields of \<open>Event\<close> the runner reads or sets. \<open>partial\<close> is \<open>Optional[bool]\<close>; the
  generated \<open>id\<close> and \<open>timestamp\<close> are left out.
\<close>

record event =
  invocation_id :: string
  author :: string
  content :: "content option"
  actions :: event_actions
  partial :: "bool option"

definition default_actions :: event_actions where
  "default_actions = \<lparr>state_delta = []\<rparr>"

text \<open>\<open>Event(invocation_id=.., author=.., content=..)\<close>: the other fields take their defaults.\<close>

definition new_event :: "string \<Rightarrow> string \<Rightarrow> content \<Rightarrow> event" where
  "new_event iid a c =
     \<lparr>invocation_id = iid, author = a, content = Some c,
      actions = default_actions, partial = None\<rparr>"

text \<open>\<open>not event.partial\<close> holds for \<open>None\<close> and for \<open>False\<close>.\<close>

definition is_partial :: "event \<Rightarrow> bool" where
  "is_partial e = (partial e = Some True)"

record session =
  session_app_name :: string
  session_user_id :: string
  session_ident :: string
  events :: "event list"

subsection \<open>Matching function calls\<close>

fun call_ids :: "part list \<Rightarrow> string list" where
  "call_ids [] = []"
| "call_ids (FunctionCall i # ps) = i # call_ids ps"
| "call_ids (p # ps) = call_ids ps"

fun response_ids :: "part list \<Rightarrow> string list" where
  "response_ids [] = []"
| "response_ids (FunctionResponse i # ps) = i # response_ids ps"
| "response_ids (p # ps) = response_ids ps"

definition function_calls :: "event \<Rightarrow> string list" where
  "function_calls e = (case content e of None \<Rightarrow> [] | Some c \<Rightarrow> call_ids (parts c))"

definition function_responses :: "event \<Rightarrow> string list" where
  "function_responses e = (case content e of None \<Rightarrow> [] | Some c \<Rightarrow> response_ids (parts c))"

text \<open>
  A function-call event is unanswered with respect to the events after it when none of
  them carries a function response whose id is the id of one of its calls.
\<close>

definition unanswered :: "event \<Rightarrow> event list \<Rightarrow> bool" where
  "unanswered e later =
     (function_calls e \<noteq> [] \<and>
      \<not> list_ex (\<lambda>l. list_ex (\<lambda>i. i \<in> set (function_responses l)) (function_calls e)) later)"

text \<open>
  Modelled from the spec: \<open>find_matching_function_call\<close> is imported from
  \<open>flows/llm_flows/functions.py\<close>, which is not part of the source at hand. Following
  section 4.1 it returns the most recent function-call event that has no matching
  function-response event later in the sequence, or \<open>None\<close>.
\<close>

fun find_matching_function_call :: "event list \<Rightarrow> event option" where
  "find_matching_function_call [] = None"
| "find_matching_function_call (e # es) =
     (case find_matching_function_call es of
        Some r \<Rightarrow> Some r
      | None \<Rightarrow> if unanswered e es then Some e else None)"

section \<open>Turn resolution\<close>

text \<open>
  \<open>_is_transferable_across_agent_tree\<close>: the loop \<open>while agent: ...; agent =
  agent.parent_agent\<close>. The argument is the loop variable, \<open>None\<close> once the root has been
  passed. A position outside the tree denotes no agent object and is not transferable.
\<close>

function is_transferable_across_agent_tree :: "agent \<Rightarrow> agent_ref option \<Rightarrow> bool" where
  "is_transferable_across_agent_tree root None = True"
| "is_transferable_across_agent_tree root (Some p) =
     (case agent_at root p of
        None \<Rightarrow> False
      | Some a \<Rightarrow>
          if \<not> isinstance_LlmAgent a then False
          else if disallow_transfer_to_parent a then False
          else is_transferable_across_agent_tree root (parent_agent p))"
  by pat_completeness auto
termination
  by (relation "measure (\<lambda>(root, r). case r of None \<Rightarrow> 0 | Some p \<Rightarrow> Suc (length p))")
     (auto simp: parent_agent_def)

declare is_transferable_across_agent_tree.simps(2) [simp del]

text \<open>
  The \<open>for\<close> loop of \<open>_find_agent_to_run\<close> over the events that are not authored by
  \<open>'user'\<close>, newest first. The result is the agent returned and the authors for which
  \<open>logger.warning('Event from an unknown agent: ...')\<close> was called. The root is
  position \<open>[]\<close>.
\<close>

fun scan_events :: "agent \<Rightarrow> event list \<Rightarrow> agent_ref \<times> string list" where
  "scan_events root [] = ([], [])"
| "scan_events root (e # es) =
     (if author e = name root then ([], [])
      else (case find_sub_agent root (author e) of
              None \<Rightarrow> (let (r, w) = scan_events root es in (r, author e # w))
            | Some a \<Rightarrow>
                if is_transferable_across_agent_tree root (Some a) then (a, [])
                else scan_events root es))"

text \<open>\<open>filter(lambda e: e.author != 'user', reversed(session.events))\<close>\<close>

definition scanned :: "session \<Rightarrow> event list" where
  "scanned s = filter (\<lambda>e. author e \<noteq> ''user'') (rev (events s))"

text \<open>
  \<open>_find_agent_to_run\<close>. The first \<open>return\<close> hands on whatever \<open>find_agent\<close> gives,
  which is \<open>None\<close> when no agent has the name.
\<close>

definition find_agent_to_run :: "session \<Rightarrow> agent \<Rightarrow> agent_ref option \<times> string list" where
  "find_agent_to_run s root =
     (case find_matching_function_call (events s) of
        Some e \<Rightarrow>
          if author e \<noteq> [] then (find_agent root (author e), [])
          else (let (r, w) = scan_events root (scanned s) in (Some r, w))
      | None \<Rightarrow> (let (r, w) = scan_events root (scanned s) in (Some r, w)))"

section \<open>Execution pipeline\<close>

subsection \<open>Configuration, context, plugins, runner\<close>

record run_config =
  support_cfc :: bool
  save_input_blobs_as_artifacts :: bool
  response_modalities :: "string list"
  output_audio_transcription :: bool
  input_audio_transcription :: bool

text \<open>
  \<open>InvocationContext\<close>: the fields the runner sets. \<open>ctx_agent\<close> is what
  \<open>_find_agent_to_run\<close> returned (Python's \<open>None\<close> included); the session is passed
  along separately, since it is mutated while the context stays as it is.
\<close>

record invocation_context =
  ctx_invocation_id :: string
  ctx_agent :: "agent_ref option"
  ctx_user_content :: "content option"
  ctx_live_request_queue :: bool
  ctx_run_config :: run_config
  ctx_active_streaming_tools :: "string list"

text \<open>
  The callbacks of \<open>PluginManager\<close> as the runner calls them: each is given the
  invocation context and returns an optional value; \<open>run_after_run_callback\<close> returns
  nothing and is visible only as a call.
\<close>

record plugin_manager =
  run_before_run_callback :: "invocation_context \<Rightarrow> content option"
  run_on_user_message_callback :: "invocation_context \<Rightarrow> content option \<Rightarrow> content option"
  run_on_event_callback :: "invocation_context \<Rightarrow> event \<Rightarrow> event option"

record runner =
  app_name :: string
  agent :: agent
  artifact_service :: bool
  plugins :: plugin_manager
  get_session :: "string \<Rightarrow> string \<Rightarrow> string \<Rightarrow> session option"

datatype error =
    ValueError string
  | AttributeError string
  | AgentError string

text \<open>
  What an asynchronous generator of events does when it is run to its end: it yields
  events and then either stops or raises.
\<close>

datatype gen = Stop | Raise error | Emit event gen

fun produced :: "gen \<Rightarrow> event list" where
  "produced Stop = []"
| "produced (Raise err) = []"
| "produced (Emit ev g) = ev # produced g"

fun raises :: "gen \<Rightarrow> error option" where
  "raises Stop = None"
| "raises (Raise err) = Some err"
| "raises (Emit ev g) = raises g"

text \<open>The calls and yields of one run that can be observed from outside, in order.\<close>

datatype action =
    GetSession string string string
  | DeprecationWarning
  | OnUserMessageCallback "content option"
  | SaveArtifact string part
  | AppendEvent event
  | LogWarningUnknownAgent string
  | BeforeRunCallback
  | ExecuteFn invocation_context session
  | OnEventCallback event
  | YieldEvent event
  | AfterRunCallback

record state =
  current_session :: session
  effects :: "action list"

definition emit :: "action \<Rightarrow> state \<Rightarrow> state" where
  "emit a st = st\<lparr>effects := effects st @ [a]\<rparr>"

text \<open>
  Modelled from the spec: \<open>session_service.append_event\<close> belongs to the session store,
  which is not part of the source at hand. It appends the event to the session's
  ordered, append-only sequence of events.
\<close>

definition append_event :: "event \<Rightarrow> state \<Rightarrow> state" where
  "append_event ev st =
     st\<lparr>current_session := (current_session st)\<lparr>events := events (current_session st) @ [ev]\<rparr>,
        effects := effects st @ [AppendEvent ev]\<rparr>"

fun persisted :: "action list \<Rightarrow> event list" where
  "persisted [] = []"
| "persisted (AppendEvent ev # as) = ev # persisted as"
| "persisted (a # as) = persisted as"

fun yielded :: "action list \<Rightarrow> event list" where
  "yielded [] = []"
| "yielded (YieldEvent ev # as) = ev # yielded as"
| "yielded (a # as) = yielded as"

fun hooked :: "action list \<Rightarrow> event list" where
  "hooked [] = []"
| "hooked (OnEventCallback ev # as) = ev # hooked as"
| "hooked (a # as) = hooked as"

fun is_execute :: "action \<Rightarrow> bool" where
  "is_execute (ExecuteFn ctx s) = True"
| "is_execute a = False"

subsection \<open>\<open>_exec_with_plugin\<close>\<close>

text \<open>
  The loop \<open>async for event in execute_fn(invocation_context)\<close>, the caller consuming the
  stream to its end.
\<close>

fun exec_events :: "plugin_manager \<Rightarrow> invocation_context \<Rightarrow> gen \<Rightarrow> state \<Rightarrow> state \<times> error option" where
  "exec_events pm ctx Stop st = (st, None)"
| "exec_events pm ctx (Raise err) st = (st, Some err)"
| "exec_events pm ctx (Emit ev g) st =
     (let st1 = (if \<not> is_partial ev then append_event ev st else st);
          modified_event = run_on_event_callback pm ctx ev;
          st2 = emit (OnEventCallback ev) st1;
          st3 = emit (YieldEvent (case modified_event of Some m \<Rightarrow> m | None \<Rightarrow> ev)) st2
      in exec_events pm ctx g st3)"

definition exec_with_plugin ::
  "plugin_manager \<Rightarrow> invocation_context \<Rightarrow> (invocation_context \<Rightarrow> session \<Rightarrow> gen) \<Rightarrow> state
     \<Rightarrow> state \<times> error option" where
  "exec_with_plugin pm ctx execute_fn st =
     (let early_exit_result = run_before_run_callback pm ctx;
          st0 = emit BeforeRunCallback st
      in case early_exit_result of
           Some c \<Rightarrow>
             (let early_exit_event = new_event (ctx_invocation_id ctx) ''model'' c;
                  st1 = append_event early_exit_event st0;
                  st2 = emit (YieldEvent early_exit_event) st1
              in (emit AfterRunCallback st2, None))
         | None \<Rightarrow>
             (case exec_events pm ctx (execute_fn ctx (current_session st0))
                     (emit (ExecuteFn ctx (current_session st0)) st0) of
                (st1, None) \<Rightarrow> (emit AfterRunCallback st1, None)
              | (st1, Some err) \<Rightarrow> (st1, Some err)))"

subsection \<open>\<open>_append_new_message_to_session\<close>\<close>

text \<open>Decimal rendering of an index, as the f-string does.\<close>

definition digit :: "nat \<Rightarrow> char" where
  "digit d = ''0123456789'' ! d"

fun show_nat :: "nat \<Rightarrow> string" where
  "show_nat n = (if n < 10 then [digit n] else show_nat (n div 10) @ [digit (n mod 10)])"

declare show_nat.simps [simp del]

text \<open>
  The loop over \<open>enumerate(new_message.parts)\<close>: a part with inline data is saved as an
  artifact and replaced by a text part naming the file.
\<close>

fun save_input_blobs :: "string \<Rightarrow> nat \<Rightarrow> part list \<Rightarrow> state \<Rightarrow> part list \<times> state" where
  "save_input_blobs iid i [] st = ([], st)"
| "save_input_blobs iid i (InlineData d # ps) st =
     (let file_name = ''artifact_'' @ iid @ ''_'' @ show_nat i;
          st1 = emit (SaveArtifact file_name (InlineData d)) st;
          (ps', st2) = save_input_blobs iid (Suc i) ps st1
      in (Text (''Uploaded file: '' @ file_name @ ''. It is saved into artifacts'') # ps', st2))"
| "save_input_blobs iid i (p # ps) st =
     (let (ps', st1) = save_input_blobs iid (Suc i) ps st in (p # ps', st1))"

text \<open>\<open>if state_delta:\<close> holds for a dictionary that is given and not empty.\<close>

fun user_event :: "string \<Rightarrow> content \<Rightarrow> (string \<times> string) list option \<Rightarrow> event" where
  "user_event iid msg None = new_event iid ''user'' msg"
| "user_event iid msg (Some d) =
     (if d \<noteq> [] then (new_event iid ''user'' msg)\<lparr>actions := \<lparr>state_delta = d\<rparr>\<rparr>
      else new_event iid ''user'' msg)"

text \<open>
  The message is changed in place when blobs are saved, so the result holds the message
  as it is afterwards, next to the state and the error.
\<close>

definition append_new_message_to_session ::
  "runner \<Rightarrow> content \<Rightarrow> invocation_context \<Rightarrow> bool \<Rightarrow> (string \<times> string) list option \<Rightarrow> state
     \<Rightarrow> content \<times> state \<times> error option" where
  "append_new_message_to_session r new_message ctx save_blobs delta st =
     (if parts new_message = []
      then (new_message, st, Some (ValueError ''No parts in the new_message.''))
      else
        (let (ps, st1) =
               (if artifact_service r \<and> save_blobs
                then save_input_blobs (ctx_invocation_id ctx) 0 (parts new_message) st
                else (parts new_message, st));
             ev = user_event (ctx_invocation_id ctx) (new_message\<lparr>parts := ps\<rparr>) delta
         in (new_message\<lparr>parts := ps\<rparr>, append_event ev st1, None)))"

subsection \<open>\<open>_new_invocation_context\<close> and \<open>_new_invocation_context_for_live\<close>\<close>

text \<open>
  The invocation id comes from \<open>new_invocation_context_id()\<close> and is a parameter here.
  The context starts with the root agent. The replacement of the root's code executor
  in the CFC case changes no event and no error and is left out.
\<close>

definition new_invocation_context ::
  "runner \<Rightarrow> string \<Rightarrow> content option \<Rightarrow> bool \<Rightarrow> run_config \<Rightarrow> error + invocation_context" where
  "new_invocation_context r iid new_message lrq cfg =
     (if support_cfc cfg \<and> isinstance_LlmAgent (agent r)
         \<and> \<not> prefix ''gemini-2'' (canonical_model (agent r))
      then Inl (ValueError (''CFC is not supported for model: '' @ canonical_model (agent r)
                             @ '' in agent: '' @ name (agent r)))
      else Inr \<lparr>ctx_invocation_id = iid, ctx_agent = Some [], ctx_user_content = new_message,
                ctx_live_request_queue = lrq, ctx_run_config = cfg,
                ctx_active_streaming_tools = []\<rparr>)"

definition live_run_config :: "runner \<Rightarrow> bool \<Rightarrow> run_config \<Rightarrow> run_config" where
  "live_run_config r lrq cfg =
     (if sub_agents (agent r) \<noteq> [] \<and> lrq then
        (let cfg1 =
               (if response_modalities cfg = []
                then cfg\<lparr>response_modalities := [''AUDIO''], output_audio_transcription := True\<rparr>
                else if ''TEXT'' \<notin> set (response_modalities cfg)
                then cfg\<lparr>output_audio_transcription := True\<rparr>
                else cfg)
         in cfg1\<lparr>input_audio_transcription := True\<rparr>)
      else cfg)"

definition new_invocation_context_for_live ::
  "runner \<Rightarrow> string \<Rightarrow> bool \<Rightarrow> run_config \<Rightarrow> error + invocation_context" where
  "new_invocation_context_for_live r iid lrq cfg =
     new_invocation_context r iid None lrq (live_run_config r lrq cfg)"

subsection \<open>\<open>run_async\<close> and \<open>run_live\<close>\<close>

text \<open>
  What a run leaves behind once its stream has been consumed: the observable actions in
  order, the error it raised if any, and the session object it worked on.
\<close>

record run_result =
  actions_done :: "action list"
  raised :: "error option"
  session_after :: "session option"

definition finish :: "state \<times> error option \<Rightarrow> run_result" where
  "finish x =
     \<lparr>actions_done = effects (fst x), raised = snd x,
      session_after = Some (current_session (fst x))\<rparr>"

text \<open>\<open>invocation_context.agent = self._find_agent_to_run(session, root_agent)\<close>\<close>

definition resolve_agent :: "agent \<Rightarrow> invocation_context \<Rightarrow> state \<Rightarrow> invocation_context \<times> state" where
  "resolve_agent root ctx st =
     (let (a, ws) = find_agent_to_run (current_session st) root
      in (ctx\<lparr>ctx_agent := a\<rparr>, st\<lparr>effects := effects st @ map LogWarningUnknownAgent ws\<rparr>))"

text \<open>
  The inner \<open>execute\<close>: it runs the agent of the context. The behaviour of the agents
  (\<open>run_async\<close> or \<open>run_live\<close> of the agent at a position) is a parameter. With no agent
  in the context the attribute access fails.
\<close>

definition execute ::
  "(agent_ref \<Rightarrow> invocation_context \<Rightarrow> session \<Rightarrow> gen) \<Rightarrow> invocation_context \<Rightarrow> session \<Rightarrow> gen" where
  "execute agent_run ctx s =
     (case ctx_agent ctx of
        None \<Rightarrow> Raise (AttributeError ''NoneType object has no such attribute'')
      | Some a \<Rightarrow> agent_run a ctx s)"

definition effective_message :: "runner \<Rightarrow> invocation_context \<Rightarrow> content option \<Rightarrow> content option" where
  "effective_message r ctx new_message =
     (case run_on_user_message_callback (plugins r) ctx new_message of
        Some m \<Rightarrow> Some m
      | None \<Rightarrow> new_message)"

text \<open>
  The context was built with the message object that was passed in. When the callback
  returns no replacement, that same object is the one appended and changed in place, so
  the context holds the changed message; a replacement is another object and leaves the
  context as it is.
\<close>

definition context_after_append ::
  "runner \<Rightarrow> invocation_context \<Rightarrow> content option \<Rightarrow> content \<Rightarrow> invocation_context" where
  "context_after_append r ctx new_message changed =
     (case run_on_user_message_callback (plugins r) ctx new_message of
        Some m \<Rightarrow> ctx
      | None \<Rightarrow> ctx\<lparr>ctx_user_content := Some changed\<rparr>)"

text \<open>The part of \<open>run_async\<close> from the resolution of the agent on.\<close>

definition run_async_on ::
  "runner \<Rightarrow> (agent_ref \<Rightarrow> invocation_context \<Rightarrow> session \<Rightarrow> gen) \<Rightarrow> invocation_context \<Rightarrow> state
     \<Rightarrow> run_result" where
  "run_async_on r agent_run ctx st =
     (let (ctx1, st1) = resolve_agent (agent r) ctx st
      in finish (exec_with_plugin (plugins r) ctx1 (execute agent_run) st1))"

definition run_async ::
  "runner \<Rightarrow> (agent_ref \<Rightarrow> invocation_context \<Rightarrow> session \<Rightarrow> gen) \<Rightarrow> string \<Rightarrow> string \<Rightarrow> string
     \<Rightarrow> content option \<Rightarrow> (string \<times> string) list option \<Rightarrow> run_config \<Rightarrow> run_result" where
  "run_async r agent_run iid uid sid new_message delta cfg =
     (case get_session r (app_name r) uid sid of
        None \<Rightarrow>
          \<lparr>actions_done = [GetSession (app_name r) uid sid],
           raised = Some (ValueError (''Session not found: '' @ sid)),
           session_after = None\<rparr>
      | Some s \<Rightarrow>
          (let st = \<lparr>current_session = s, effects = [GetSession (app_name r) uid sid]\<rparr> in
           case new_invocation_context r iid new_message False cfg of
             Inl err \<Rightarrow> finish (st, Some err)
           | Inr ctx \<Rightarrow>
               (let st1 = emit (OnUserMessageCallback new_message) st in
                case effective_message r ctx new_message of
                  None \<Rightarrow> run_async_on r agent_run ctx st1
                | Some m \<Rightarrow>
                    (case append_new_message_to_session r m ctx
                            (save_input_blobs_as_artifacts cfg) delta st1 of
                       (changed, st2, Some err) \<Rightarrow> finish (st2, Some err)
                     | (changed, st2, None) \<Rightarrow>
                         run_async_on r agent_run
                           (context_after_append r ctx new_message changed) st2))))"

text \<open>
  The tools of the resolved agent with a parameter annotated \<open>LiveRequestQueue\<close>; an
  agent without a \<open>tools\<close> attribute (or no agent) has none.
\<close>

fun streaming_tool_names :: "tool_union list \<Rightarrow> string list" where
  "streaming_tool_names [] = []"
| "streaming_tool_names (Tool n True # ts) = n # streaming_tool_names ts"
| "streaming_tool_names (t # ts) = streaming_tool_names ts"

definition active_streaming_tools :: "agent \<Rightarrow> agent_ref option \<Rightarrow> string list" where
  "active_streaming_tools root a =
     (case a of
        None \<Rightarrow> []
      | Some p \<Rightarrow> (case agent_at root p of None \<Rightarrow> [] | Some ag \<Rightarrow> streaming_tool_names (tools ag)))"

text \<open>The part of \<open>run_live\<close> that follows once the session is at hand.\<close>

definition run_live_on ::
  "runner \<Rightarrow> (agent_ref \<Rightarrow> invocation_context \<Rightarrow> session \<Rightarrow> gen) \<Rightarrow> string \<Rightarrow> bool
     \<Rightarrow> run_config \<Rightarrow> state \<Rightarrow> run_result" where
  "run_live_on r agent_run iid lrq cfg st =
     (case new_invocation_context_for_live r iid lrq cfg of
        Inl err \<Rightarrow> finish (st, Some err)
      | Inr ctx \<Rightarrow>
          (let (ctx1, st1) = resolve_agent (agent r) ctx st;
               ctx2 = ctx1\<lparr>ctx_active_streaming_tools :=
                        active_streaming_tools (agent r) (ctx_agent ctx1)\<rparr>
           in finish (exec_with_plugin (plugins r) ctx2 (execute agent_run) st1)))"

definition run_live ::
  "runner \<Rightarrow> (agent_ref \<Rightarrow> invocation_context \<Rightarrow> session \<Rightarrow> gen) \<Rightarrow> string \<Rightarrow> string option
     \<Rightarrow> string option \<Rightarrow> bool \<Rightarrow> run_config \<Rightarrow> session option \<Rightarrow> run_result" where
  "run_live r agent_run iid uid sid lrq cfg given =
     (case given of
        Some s \<Rightarrow>
          run_live_on r agent_run iid lrq cfg \<lparr>current_session = s, effects = [DeprecationWarning]\<rparr>
      | None \<Rightarrow>
          (case (uid, sid) of
             (Some u, Some i) \<Rightarrow>
               (case get_session r (app_name r) u i of
                  None \<Rightarrow>
                    \<lparr>actions_done = [GetSession (app_name r) u i],
                     raised = Some (ValueError (''Session not found: '' @ i)),
                     session_after = None\<rparr>
                | Some s \<Rightarrow>
                    run_live_on r agent_run iid lrq cfg
                      \<lparr>current_session = s, effects = [GetSession (app_name r) u i]\<rparr>)
           | _ \<Rightarrow>
               \<lparr>actions_done = [],
                raised = Some (ValueError
                  ''Either session or user_id and session_id must be provided.''),
                session_after = None\<rparr>))"

section \<open>Blocking \<open>run\<close>\<close>

text \<open>
  \<open>run\<close> starts a thread that drives \<open>run_async\<close> and puts every event into a
  \<open>queue.Queue\<close>; \<open>_invoke_run_async\<close> and \<open>_asyncio_thread_main\<close> each put \<open>None\<close> in
  their \<open>finally\<close> block. The calling thread takes items from the queue and yields them
  until it takes \<open>None\<close>, then joins the thread. The two threads are modelled by their
  atomic steps on the shared queue, interleaved in any order.

  The worker is either still inside the \<open>async for\<close> (with the events \<open>run_async\<close> has
  yet to yield and the error it ends with, if any), or in the \<open>finally\<close> of
  \<open>_asyncio_thread_main\<close>, or it has exited. The caller is taking from the queue, or
  joining, or has returned; what it returns with is the error it sees, if any.
\<close>

datatype worker =
    Invoking "event list" "error option"
  | ThreadMainFinally "error option"
  | Exited "error option"

datatype caller =
    Getting
  | Joining
  | Returned "error option"

record bridge =
  thread :: worker
  event_queue :: "event option list"
  consumer :: caller
  reyielded :: "event list"

definition worker_step :: "bridge \<Rightarrow> bridge option" where
  "worker_step b =
     (case thread b of
        Invoking (e # es) err \<Rightarrow>
          Some (b\<lparr>thread := Invoking es err, event_queue := event_queue b @ [Some e]\<rparr>)
      | Invoking [] err \<Rightarrow>
          Some (b\<lparr>thread := ThreadMainFinally err, event_queue := event_queue b @ [None]\<rparr>)
      | ThreadMainFinally err \<Rightarrow>
          Some (b\<lparr>thread := Exited err, event_queue := event_queue b @ [None]\<rparr>)
      | Exited err \<Rightarrow> None)"

definition caller_step :: "bridge \<Rightarrow> bridge option" where
  "caller_step b =
     (case consumer b of
        Getting \<Rightarrow>
          (case event_queue b of
             [] \<Rightarrow> None
           | Some e # q \<Rightarrow> Some (b\<lparr>event_queue := q, reyielded := reyielded b @ [e]\<rparr>)
           | None # q \<Rightarrow> Some (b\<lparr>event_queue := q, consumer := Joining\<rparr>))
      | Joining \<Rightarrow>
          (case thread b of
             Exited err \<Rightarrow> Some (b\<lparr>consumer := Returned None\<rparr>)
           | _ \<Rightarrow> None)
      | Returned x \<Rightarrow> None)"

definition bridge_step :: "bridge \<Rightarrow> bridge \<Rightarrow> bool" where
  "bridge_step b b' = (worker_step b = Some b' \<or> caller_step b = Some b')"

text \<open>A schedule says which thread moves next; a thread that cannot move is skipped.\<close>

fun run_schedule :: "bool list \<Rightarrow> bridge \<Rightarrow> bridge" where
  "run_schedule [] b = b"
| "run_schedule (w # ws) b =
     (case (if w then worker_step b else caller_step b) of
        None \<Rightarrow> run_schedule ws b
      | Some b' \<Rightarrow> run_schedule ws b')"

definition bridge_start :: "run_result \<Rightarrow> bridge" where
  "bridge_start res =
     \<lparr>thread = Invoking (yielded (actions_done res)) (raised res), event_queue = [],
      consumer = Getting, reyielded = []\<rparr>"

text \<open>\<open>run\<close> passes no state delta to \<open>run_async\<close>.\<close>

definition run ::
  "runner \<Rightarrow> (agent_ref \<Rightarrow> invocation_context \<Rightarrow> session \<Rightarrow> gen) \<Rightarrow> string \<Rightarrow> string \<Rightarrow> string
     \<Rightarrow> content option \<Rightarrow> run_config \<Rightarrow> bridge" where
  "run r agent_run iid uid sid new_message cfg =
     bridge_start (run_async r agent_run iid uid sid new_message None cfg)"

section \<open>Closing the runner\<close>











section \<open>Vocabulary of the properties\<close>

subsection \<open>Turn resolution\<close>

text \<open>The names of the agents of a tree are identifiers (so none is empty), and no two
  nodes have the same name (section 3).\<close>

definition well_named :: "agent \<Rightarrow> bool" where
  "well_named root = (distinct (agent_names root) \<and> [] \<notin> set (agent_names root))"

text \<open>The first step of \<open>_find_agent_to_run\<close> does not return: there is no matching
  function call, or its event has an empty author.\<close>

definition first_step_skipped :: "session \<Rightarrow> bool" where
  "first_step_skipped s =
     (case find_matching_function_call (events s) of None \<Rightarrow> True | Some e \<Rightarrow> author e = [])"

text \<open>An event at which the scan stops, and the agent it stops with.\<close>

definition qualifies :: "agent \<Rightarrow> event \<Rightarrow> bool" where
  "qualifies root e =
     (author e = name root \<or>
      (case find_sub_agent root (author e) of
         None \<Rightarrow> False
       | Some a \<Rightarrow> is_transferable_across_agent_tree root (Some a)))"

definition agent_of_event :: "agent \<Rightarrow> event \<Rightarrow> agent_ref" where
  "agent_of_event root e =
     (if author e = name root then []
      else (case find_sub_agent root (author e) of None \<Rightarrow> [] | Some a \<Rightarrow> a))"

text \<open>Every node on the path from a position up to the root is an LLM agent whose
  transfer-disallow flag is unset.\<close>

definition transfer_path_ok :: "agent \<Rightarrow> agent_ref \<Rightarrow> bool" where
  "transfer_path_ok root p =
     list_all (\<lambda>q. case agent_at root q of
                     None \<Rightarrow> False
                   | Some a \<Rightarrow> isinstance_LlmAgent a \<and> \<not> disallow_transfer_to_parent a)
              (prefixes p)"

subsection \<open>Execution pipeline\<close>

text \<open>
  Section 4.2 in its own words, for one event of the normal execution: if it is not
  partial, persist it before yielding; invoke the on-event hook; yield the replacement
  if provided, otherwise the original.
\<close>

definition spec_event_steps :: "plugin_manager \<Rightarrow> invocation_context \<Rightarrow> event \<Rightarrow> action list" where
  "spec_event_steps pm ctx ev =
     (if is_partial ev then [] else [AppendEvent ev]) @
     [OnEventCallback ev,
      YieldEvent (case run_on_event_callback pm ctx ev of Some m \<Rightarrow> m | None \<Rightarrow> ev)]"

text \<open>The actions of a run after a given state.\<close>

definition since :: "state \<Rightarrow> state \<Rightarrow> action list" where
  "since st st' = drop (length (effects st)) (effects st')"

fun is_get_session :: "action \<Rightarrow> bool" where
  "is_get_session (GetSession a u i) = True"
| "is_get_session x = False"

fun is_callback :: "action \<Rightarrow> bool" where
  "is_callback BeforeRunCallback = True"
| "is_callback (OnEventCallback ev) = True"
| "is_callback AfterRunCallback = True"
| "is_callback x = False"

text \<open>Actions among which nothing is persisted or yielded, the agent is not executed and
  no run callback is called.\<close>

definition quiet :: "action list \<Rightarrow> bool" where
  "quiet as =
     (persisted as = [] \<and> yielded as = []
      \<and> \<not> list_ex is_execute as \<and> \<not> list_ex is_callback as)"

text \<open>
  A run fails fast: it raises, with nothing persisted, nothing yielded, the agent not
  executed, no run callback called, and the session looked up at most once.
\<close>

definition fails_fast :: "run_result \<Rightarrow> bool" where
  "fails_fast res =
     (raised res \<noteq> None
      \<and> quiet (actions_done res)
      \<and> length (filter is_get_session (actions_done res)) \<le> 1)"

text \<open>The parts of a user message as they are stored: inline data replaced by the
  placeholder when the blobs are saved as artifacts.\<close>

fun placeholder_parts :: "string \<Rightarrow> nat \<Rightarrow> part list \<Rightarrow> part list" where
  "placeholder_parts iid i [] = []"
| "placeholder_parts iid i (InlineData d # ps) =
     Text (''Uploaded file: '' @ (''artifact_'' @ iid @ ''_'' @ show_nat i)
           @ ''. It is saved into artifacts'') # placeholder_parts iid (Suc i) ps"
| "placeholder_parts iid i (p # ps) = p # placeholder_parts iid (Suc i) ps"

definition stored_parts :: "runner \<Rightarrow> run_config \<Rightarrow> string \<Rightarrow> content \<Rightarrow> part list" where
  "stored_parts r cfg iid m =
     (if artifact_service r \<and> save_input_blobs_as_artifacts cfg
      then placeholder_parts iid 0 (parts m) else parts m)"

fun save_actions :: "string \<Rightarrow> nat \<Rightarrow> part list \<Rightarrow> action list" where
  "save_actions iid i [] = []"
| "save_actions iid i (InlineData d # ps) =
     SaveArtifact (''artifact_'' @ iid @ ''_'' @ show_nat i) (InlineData d)
     # save_actions iid (Suc i) ps"
| "save_actions iid i (p # ps) = save_actions iid (Suc i) ps"

subsection \<open>Blocking run\<close>

text \<open>A bound on the number of steps the two threads can still take.\<close>

fun worker_left :: "worker \<Rightarrow> nat" where
  "worker_left (Invoking es err) = length es + 2"
| "worker_left (ThreadMainFinally err) = 1"
| "worker_left (Exited err) = 0"

fun caller_left :: "caller \<Rightarrow> nat" where
  "caller_left Getting = 2"
| "caller_left Joining = 1"
| "caller_left (Returned x) = 0"

definition steps_left :: "bridge \<Rightarrow> nat" where
  "steps_left b = 3 * worker_left (thread b) + length (event_queue b) + caller_left (consumer b)"

text \<open>
  What holds of the two threads and the queue at every moment of a blocking run whose
  \<open>run_async\<close> yields \<open>evs\<close>: the events re-yielded, those waiting in the queue and
  those still to come make up \<open>evs\<close>, and the queue ends with as many \<open>None\<close> as the
  worker has put and the caller has not taken.
\<close>

definition bridge_inv :: "event list \<Rightarrow> bridge \<Rightarrow> bool" where
  "bridge_inv evs b =
     (case thread b of
        Invoking es err \<Rightarrow>
          consumer b = Getting
          \<and> (\<exists>qs. event_queue b = map Some qs \<and> reyielded b @ qs @ es = evs)
      | ThreadMainFinally err \<Rightarrow>
          (consumer b = Getting
             \<and> (\<exists>qs. event_queue b = map Some qs @ [None] \<and> reyielded b @ qs = evs))
          \<or> (consumer b = Joining \<and> event_queue b = [] \<and> reyielded b = evs)
      | Exited err \<Rightarrow>
          (consumer b = Getting
             \<and> (\<exists>qs. event_queue b = map Some qs @ [None, None] \<and> reyielded b @ qs = evs))
          \<or> ((consumer b = Joining \<or> consumer b = Returned None)
               \<and> event_queue b = [None] \<and> reyielded b = evs))"

subsection \<open>Closing the runner\<close>



section \<open>Example data\<close>

definition text_event :: "string \<Rightarrow> string \<Rightarrow> event" where
  "text_event a t =
     new_event ''e-1'' a \<lparr>role = (if a = ''user'' then ''user'' else ''model''), parts = [Text t]\<rparr>"

definition call_event :: "string \<Rightarrow> string \<Rightarrow> event" where
  "call_event a i = new_event ''e-1'' a \<lparr>role = ''model'', parts = [FunctionCall i]\<rparr>"

definition response_event :: "string \<Rightarrow> string \<Rightarrow> event" where
  "response_event a i = new_event ''e-1'' a \<lparr>role = ''user'', parts = [FunctionResponse i]\<rparr>"

definition session_of :: "event list \<Rightarrow> session" where
  "session_of evs =
     \<lparr>session_app_name = ''app'', session_user_id = ''u1'', session_ident = ''s1'', events = evs\<rparr>"

text \<open>A root with two sub-agents, one of them with the transfer-disallow flag, and a
  workflow agent below the first. Toolset 1 is shared by the root and \<open>helper\<close>, toolset 2
  by \<open>helper\<close> and \<open>locked\<close>.\<close>

definition demo_root :: agent where
  "demo_root =
     Agent ''root'' (LlmAgent ''gemini-2.0-flash'' False [Toolset 1, Tool ''lookup'' False])
       [Agent ''helper'' (LlmAgent ''gemini-2.0-flash'' False [Toolset 1, Toolset 2])
          [Agent ''worker'' OtherAgent []],
        Agent ''locked'' (LlmAgent ''gemini-2.0-flash'' True [Toolset 2]) []]"

definition handover_session :: session where
  "handover_session =
     session_of [text_event ''user'' ''hi'', text_event ''helper'' ''hello'',
                 text_event ''user'' ''more'', text_event ''locked'' ''done'',
                 text_event ''user'' ''again'']"

definition pending_session :: session where
  "pending_session =
     session_of [text_event ''user'' ''hi'', text_event ''helper'' ''hello'',
                 call_event ''locked'' ''c1'', text_event ''user'' ''again'']"

text \<open>Events of an agent that is not in the tree.\<close>

definition ghost_session :: session where
  "ghost_session =
     session_of [call_event ''ghost'' ''c2'', call_event ''ghost'' ''c1'',
                 response_event ''user'' ''c1'']"

definition demo_config :: run_config where
  "demo_config =
     \<lparr>support_cfc = False, save_input_blobs_as_artifacts = True, response_modalities = [],
      output_audio_transcription = False, input_audio_transcription = False\<rparr>"

definition demo_context :: invocation_context where
  "demo_context =
     \<lparr>ctx_invocation_id = ''e-1'', ctx_agent = Some [0], ctx_user_content = None,
      ctx_live_request_queue = False, ctx_run_config = demo_config,
      ctx_active_streaming_tools = []\<rparr>"

definition maintenance :: content where
  "maintenance = \<lparr>role = ''model'', parts = [Text ''maintenance'']\<rparr>"

text \<open>Plugins that return nothing, plugins whose before-run callback answers with a
  fixed content, and plugins whose on-event callback replaces every finished event of
  \<open>helper\<close>.\<close>

definition passive_plugins :: plugin_manager where
  "passive_plugins =
     \<lparr>run_before_run_callback = (\<lambda>ctx. None),
      run_on_user_message_callback = (\<lambda>ctx m. None),
      run_on_event_callback = (\<lambda>ctx ev. None)\<rparr>"

definition maintenance_plugins :: plugin_manager where
  "maintenance_plugins = passive_plugins\<lparr>run_before_run_callback := (\<lambda>ctx. Some maintenance)\<rparr>"

definition redacting_plugins :: plugin_manager where
  "redacting_plugins =
     passive_plugins\<lparr>run_on_event_callback :=
       (\<lambda>ctx ev. if author ev = ''helper'' \<and> \<not> is_partial ev
                  then Some (text_event ''helper'' ''redacted'') else None)\<rparr>"

definition fragment :: event where
  "fragment = (text_event ''helper'' ''hel'')\<lparr>partial := Some True\<rparr>"

definition answer :: event where
  "answer = text_event ''helper'' ''hello''"

text \<open>An agent run that yields a partial and a finished event, and one that raises
  after them.\<close>

definition helper_run :: "invocation_context \<Rightarrow> session \<Rightarrow> gen" where
  "helper_run ctx s = Emit fragment (Emit answer Stop)"

definition failing_run :: "invocation_context \<Rightarrow> session \<Rightarrow> gen" where
  "failing_run ctx s = Emit fragment (Emit answer (Raise (AgentError ''boom'')))"

definition demo_state :: state where
  "demo_state = \<lparr>current_session = session_of [text_event ''user'' ''hi''], effects = []\<rparr>"

definition demo_sessions :: "string \<Rightarrow> string \<Rightarrow> string \<Rightarrow> session option" where
  "demo_sessions a u i =
     (if a = ''app'' \<and> u = ''u1'' \<and> i = ''s1''
      then Some (session_of [text_event ''user'' ''hi'', text_event ''helper'' ''hello''])
      else None)"

definition demo_runner :: runner where
  "demo_runner =
     \<lparr>app_name = ''app'', agent = demo_root, artifact_service = True,
      plugins = passive_plugins, get_session = demo_sessions\<rparr>"

definition demo_agents :: "agent_ref \<Rightarrow> invocation_context \<Rightarrow> session \<Rightarrow> gen" where
  "demo_agents a = helper_run"

definition upload_message :: content where
  "upload_message = \<lparr>role = ''user'', parts = [Text ''see this'', InlineData ''blob'']\<rparr>"

definition empty_message :: content where
  "empty_message = \<lparr>role = ''user'', parts = []\<rparr>"

definition upload_context :: invocation_context where
  "upload_context = demo_context\<lparr>ctx_agent := Some [], ctx_user_content := Some upload_message\<rparr>"

definition empty_context :: invocation_context where
  "empty_context = demo_context\<lparr>ctx_agent := Some [], ctx_user_content := Some empty_message\<rparr>"


text \<open>Plugins whose on-user-message callback replaces every message by a greeting.\<close>

definition greeting :: content where
  "greeting = \<lparr>role = ''user'', parts = [Text ''hello'']\<rparr>"

definition replacing_plugins :: plugin_manager where
  "replacing_plugins = passive_plugins\<lparr>run_on_user_message_callback := (\<lambda>ctx m. Some greeting)\<rparr>"

definition replacing_runner :: runner where
  "replacing_runner = demo_runner\<lparr>plugins := replacing_plugins\<rparr>"

definition failing_agents :: "agent_ref \<Rightarrow> invocation_context \<Rightarrow> session \<Rightarrow> gen" where
  "failing_agents a = failing_run"

section \<open>Turn resolution: proofs\<close>

lemma find_agent_sound:
  "find_agent a nm = Some p \<Longrightarrow> \<exists>b. agent_at a p = Some b \<and> name b = nm"
  "find_in_sub_agents subs k nm = Some p \<Longrightarrow>
     \<exists>j q b. p = (k + j) # q \<and> j < length subs \<and> agent_at (subs ! j) q = Some b \<and> name b = nm"
proof (induction a nm and subs k nm arbitrary: p and p rule: find_agent_find_in_sub_agents.induct)
  case (1 n v subs nm)
  show ?case
  proof (cases "n = nm")
    case True
    with 1 show ?thesis by simp
  next
    case False
    with 1(2) have f: "find_in_sub_agents subs 0 nm = Some p" by simp
    from 1(1)[OF False f] obtain j q b where
      "p = j # q" "j < length subs" "agent_at (subs ! j) q = Some b" "name b = nm" by auto
    then show ?thesis by simp
  qed
next
  case (2 i nm)
  then show ?case by simp
next
  case (3 a as i nm)
  show ?case
  proof (cases "find_agent a nm")
    case None
    with 3(3) have "find_in_sub_agents as (Suc i) nm = Some p" by simp
    from 3(2)[OF None this] obtain j q b where
      "p = (Suc i + j) # q" "j < length as" "agent_at (as ! j) q = Some b" "name b = nm" by auto
    then have "p = (i + Suc j) # q \<and> Suc j < length (a # as)
        \<and> agent_at ((a # as) ! Suc j) q = Some b \<and> name b = nm"
      by simp
    then show ?thesis by blast
  next
    case (Some q)
    with 3(3) have p: "p = i # q" by simp
    from 3(1)[OF Some] obtain b where "agent_at a q = Some b" "name b = nm" by auto
    with p have "p = (i + 0) # q \<and> 0 < length (a # as)
        \<and> agent_at ((a # as) ! 0) q = Some b \<and> name b = nm"
      by simp
    then show ?thesis by blast
  qed
qed

lemma find_agent_complete:
  "nm \<in> set (agent_names a) \<Longrightarrow> find_agent a nm \<noteq> None"
  "nm \<in> set (concat (map agent_names subs)) \<Longrightarrow> find_in_sub_agents subs k nm \<noteq> None"
proof (induction a nm and subs k nm rule: find_agent_find_in_sub_agents.induct)
  case (1 n v subs nm)
  then show ?case by auto
next
  case (2 i nm)
  then show ?case by simp
next
  case (3 a as i nm)
  then show ?case by (cases "find_agent a nm") auto
qed

lemma transferable_root:
  "is_transferable_across_agent_tree root (Some []) \<longleftrightarrow>
     isinstance_LlmAgent root \<and> \<not> disallow_transfer_to_parent root"
  by (subst is_transferable_across_agent_tree.simps(2)) (simp add: parent_agent_def)

lemma transferable_snoc:
  "is_transferable_across_agent_tree root (Some (p @ [i])) \<longleftrightarrow>
     (case agent_at root (p @ [i]) of
        None \<Rightarrow> False
      | Some a \<Rightarrow> isinstance_LlmAgent a \<and> \<not> disallow_transfer_to_parent a)
     \<and> is_transferable_across_agent_tree root (Some p)"
  by (subst is_transferable_across_agent_tree.simps(2))
     (auto simp: parent_agent_def split: option.splits)

lemma transferable_path:
  "is_transferable_across_agent_tree root (Some p) = transfer_path_ok root p"
proof (induction p rule: rev_induct)
  case Nil
  show ?case by (simp add: transferable_root transfer_path_ok_def)
next
  case (snoc i p)
  then show ?case
    by (auto simp: transferable_snoc transfer_path_ok_def)
qed

lemma scan_events_find:
  "fst (scan_events root es) =
     (case List.find (qualifies root) es of None \<Rightarrow> [] | Some e \<Rightarrow> agent_of_event root e)"
  by (induction es)
     (auto simp: qualifies_def agent_of_event_def split_beta split: option.splits)

lemma scan_events_transferable:
  "fst (scan_events root es) = p \<Longrightarrow> p \<noteq> [] \<Longrightarrow> is_transferable_across_agent_tree root (Some p)"
  by (induction es) (auto simp: split_beta split: option.splits if_splits)

lemma find_agent_to_run_scan:
  "first_step_skipped s \<Longrightarrow>
     fst (find_agent_to_run s root) = Some (fst (scan_events root (scanned s)))"
  by (auto simp: first_step_skipped_def find_agent_to_run_def split_beta
           split: option.splits)

lemma no_later_unanswered:
  "\<forall>k<length es. \<not> unanswered (es ! k) (drop (Suc k) es) \<Longrightarrow>
     find_matching_function_call es = None"
proof (induction es)
  case Nil
  show ?case by simp
next
  case (Cons e es)
  from Cons.prems have "\<not> unanswered ((e # es) ! 0) (drop (Suc 0) (e # es))" by blast
  then have h: "\<not> unanswered e es" by simp
  have "\<forall>k<length es. \<not> unanswered (es ! k) (drop (Suc k) es)"
  proof (intro allI impI)
    fix k assume "k < length es"
    then have "Suc k < length (e # es)" by simp
    with Cons.prems have "\<not> unanswered ((e # es) ! Suc k) (drop (Suc (Suc k)) (e # es))" by blast
    then show "\<not> unanswered (es ! k) (drop (Suc k) es)" by simp
  qed
  with Cons.IH h show ?case by simp
qed

lemma matching_call_append:
  "find_matching_function_call ys = Some e \<Longrightarrow> find_matching_function_call (xs @ ys) = Some e"
  by (induction xs) simp_all

lemma most_recent_unanswered:
  assumes "unanswered e later"
    and "\<forall>k<length later. \<not> unanswered (later ! k) (drop (Suc k) later)"
  shows "find_matching_function_call (older @ e # later) = Some e"
proof -
  from assms(2) have "find_matching_function_call later = None" by (rule no_later_unanswered)
  with assms(1) have "find_matching_function_call (e # later) = Some e" by simp
  then show ?thesis by (rule matching_call_append)
qed

lemma agent_at_name: "agent_at a p = Some b \<Longrightarrow> name b \<in> set (agent_names a)"
proof (induction p arbitrary: a)
  case Nil
  then show ?case by (cases a) auto
next
  case (Cons i p)
  obtain n v subs where a: "a = Agent n v subs" by (cases a)
  with Cons.prems have i: "i < length subs" and at: "agent_at (subs ! i) p = Some b"
    by (auto split: if_splits)
  from Cons.IH[OF at] have "name b \<in> set (agent_names (subs ! i))" .
  with i a show ?case by auto
qed

lemma find_agent_name: "find_agent a nm = Some p \<Longrightarrow> nm \<in> set (agent_names a)"
  using find_agent_sound(1) agent_at_name by blast

lemma distinct_concat_nth:
  "distinct (concat xss) \<Longrightarrow> i < length xss \<Longrightarrow>
     distinct (xss ! i) \<and> (\<forall>j<i. set (xss ! j) \<inter> set (xss ! i) = {})"
proof (induction xss arbitrary: i)
  case Nil
  then show ?case by simp
next
  case (Cons xs xss)
  show ?case
  proof (cases i)
    case 0
    with Cons.prems show ?thesis by simp
  next
    case (Suc k)
    with Cons.prems have k: "k < length xss" and d: "distinct (concat xss)"
      and dis: "set xs \<inter> set (concat xss) = {}" by auto
    from Cons.IH[OF d k] have ih: "distinct (xss ! k)"
      "\<forall>j<k. set (xss ! j) \<inter> set (xss ! k) = {}" by blast+
    from k have "xss ! k \<in> set xss" by simp
    then have "set (xss ! k) \<subseteq> set (concat xss)" by auto
    with dis have h: "set xs \<inter> set (xss ! k) = {}" by blast
    have "\<forall>j<Suc k. set ((xs # xss) ! j) \<inter> set (xss ! k) = {}"
    proof (intro allI impI)
      fix j assume "j < Suc k"
      then show "set ((xs # xss) ! j) \<inter> set (xss ! k) = {}"
        using h ih(2) by (cases j) auto
    qed
    with ih(1) Suc show ?thesis by simp
  qed
qed

lemma find_in_sub_agents_at:
  "i < length subs \<Longrightarrow> find_agent (subs ! i) nm = Some q \<Longrightarrow>
     \<forall>j<i. nm \<notin> set (agent_names (subs ! j)) \<Longrightarrow>
     find_in_sub_agents subs k nm = Some ((k + i) # q)"
proof (induction subs arbitrary: i k)
  case Nil
  then show ?case by simp
next
  case (Cons a as)
  show ?case
  proof (cases i)
    case 0
    with Cons.prems show ?thesis by simp
  next
    case (Suc i')
    with Cons.prems(3) have "nm \<notin> set (agent_names a)" by auto
    then have none: "find_agent a nm = None"
      using find_agent_name by (cases "find_agent a nm") auto
    from Suc Cons.prems have i': "i' < length as" "find_agent (as ! i') nm = Some q"
      by simp_all
    have "\<forall>j<i'. nm \<notin> set (agent_names (as ! j))"
    proof (intro allI impI)
      fix j assume "j < i'"
      then have "Suc j < i" using Suc by simp
      with Cons.prems(3) have "nm \<notin> set (agent_names ((a # as) ! Suc j))" by blast
      then show "nm \<notin> set (agent_names (as ! j))" by simp
    qed
    from Cons.IH[OF i' this, of "Suc k"] none Suc show ?thesis by simp
  qed
qed

lemma find_agent_at:
  "distinct (agent_names a) \<Longrightarrow> agent_at a p = Some b \<Longrightarrow> find_agent a (name b) = Some p"
proof (induction p arbitrary: a)
  case Nil
  then show ?case by (cases a) auto
next
  case (Cons i p)
  obtain n v subs where a: "a = Agent n v subs" by (cases a)
  with Cons.prems(2) have i: "i < length subs" and at: "agent_at (subs ! i) p = Some b"
    by (auto split: if_splits)
  from Cons.prems(1) a have n: "n \<notin> set (concat (map agent_names subs))"
    and d: "distinct (concat (map agent_names subs))" by simp_all
  from i have i': "i < length (map agent_names subs)" by simp
  from distinct_concat_nth[OF d i'] i
  have di: "distinct (agent_names (subs ! i))"
    and dj: "\<forall>j<i. set (agent_names (subs ! j)) \<inter> set (agent_names (subs ! i)) = {}"
    by auto
  from agent_at_name[OF at] have nb: "name b \<in> set (agent_names (subs ! i))" .
  with i n have ne: "n \<noteq> name b" by auto
  from Cons.IH[OF di at] have f: "find_agent (subs ! i) (name b) = Some p" .
  from dj nb have "\<forall>j<i. name b \<notin> set (agent_names (subs ! j))" by blast
  from find_in_sub_agents_at[OF i f this, of 0] a ne show ?case by simp
qed

lemma well_named_author:
  "well_named root \<Longrightarrow> agent_at root p = Some a \<Longrightarrow> name a \<noteq> []"
  using agent_at_name unfolding well_named_def by metis

text \<open>
  C4. Let the agent names of the tree be non-empty and unique. When the most recent
  function-call event without a matching function response after it is authored by the
  name of a node of the tree (at any position), turn resolution returns that node,
  whatever its variant and transfer-disallow flag and whatever the other events are.
\<close>

theorem pending_function_call_goes_to_its_author:
  assumes "well_named root"
    and "events s = older @ e # later"
    and "unanswered e later"
    and "\<forall>k<length later. \<not> unanswered (later ! k) (drop (Suc k) later)"
    and "agent_at root p = Some a"
    and "name a = author e"
  shows "fst (find_agent_to_run s root) = Some p"
proof -
  from assms(2-4) have m: "find_matching_function_call (events s) = Some e"
    by (simp add: most_recent_unanswered)
  from assms(1,5) have "find_agent root (name a) = Some p"
    by (simp add: well_named_def find_agent_at)
  with assms(6) have f: "find_agent root (author e) = Some p" by simp
  from well_named_author[OF assms(1,5)] assms(6) have "author e \<noteq> []" by simp
  with m f show ?thesis by (simp add: find_agent_to_run_def)
qed

lemma pending_session_facts:
  "well_named demo_root"
  "events pending_session =
     [text_event ''user'' ''hi'', text_event ''helper'' ''hello'']
     @ call_event ''locked'' ''c1'' # [text_event ''user'' ''again'']"
  "unanswered (call_event ''locked'' ''c1'') [text_event ''user'' ''again'']"
  "\<forall>k<length [text_event ''user'' ''again''].
      \<not> unanswered ([text_event ''user'' ''again''] ! k) (drop (Suc k) [text_event ''user'' ''again''])"
  "agent_at demo_root [1] = Some (Agent ''locked'' (LlmAgent ''gemini-2.0-flash'' True [Toolset 2]) [])"
  "name (Agent ''locked'' (LlmAgent ''gemini-2.0-flash'' True [Toolset 2]) []) =
     author (call_event ''locked'' ''c1'')"
  by (simp_all add: pending_session_def session_of_def unanswered_def function_calls_def
        function_responses_def call_event_def text_event_def new_event_def demo_root_def
        well_named_def)

theorem pending_function_call_goes_to_its_author_witness:
  "well_named demo_root
   \<and> events pending_session =
     [text_event ''user'' ''hi'', text_event ''helper'' ''hello'']
     @ call_event ''locked'' ''c1'' # [text_event ''user'' ''again'']
   \<and> unanswered (call_event ''locked'' ''c1'') [text_event ''user'' ''again'']
   \<and> agent_at demo_root [1] = Some (Agent ''locked'' (LlmAgent ''gemini-2.0-flash'' True [Toolset 2]) [])
   \<and> author (call_event ''locked'' ''c1'') = ''locked''
   \<and> \<not> transfer_path_ok demo_root [1]
   \<and> fst (find_agent_to_run pending_session demo_root) = Some [1]"
proof -
  have a: "author (call_event ''locked'' ''c1'') = ''locked''"
    by (simp add: call_event_def new_event_def)
  have n: "\<not> transfer_path_ok demo_root [1]"
    by (simp add: transfer_path_ok_def demo_root_def)
  from pending_function_call_goes_to_its_author[OF pending_session_facts]
  have "fst (find_agent_to_run pending_session demo_root) = Some [1]" .
  with a n pending_session_facts(1,2,3,5) show ?thesis by simp
qed

text \<open>
  C5. When the first step does not return, turn resolution returns the agent of the
  newest event that is not the user's and qualifies (its author is the root, or a
  sub-agent with a transferable path); events that do not qualify are passed over, and
  the root is returned when none qualifies. A sub-agent other than the root is returned
  only if every node on the path from it up to the root is an LLM agent with the
  transfer-disallow flag unset. With an empty event history the root is returned.
\<close>

theorem scan_returns_transferable_agent_or_root:
  "(first_step_skipped s \<longrightarrow>
      fst (find_agent_to_run s root) =
        Some (case List.find (qualifies root) (scanned s) of
                None \<Rightarrow> []
              | Some e \<Rightarrow> agent_of_event root e)
      \<and> (\<forall>p. fst (find_agent_to_run s root) = Some p \<and> p \<noteq> [] \<longrightarrow> transfer_path_ok root p))
   \<and> (events s = [] \<longrightarrow> fst (find_agent_to_run s root) = Some [])"
proof (intro conjI impI allI)
  assume "first_step_skipped s"
  then show "fst (find_agent_to_run s root) =
        Some (case List.find (qualifies root) (scanned s) of
                None \<Rightarrow> []
              | Some e \<Rightarrow> agent_of_event root e)"
    by (simp add: find_agent_to_run_scan scan_events_find)
next
  fix p
  assume sk: "first_step_skipped s"
    and "fst (find_agent_to_run s root) = Some p \<and> p \<noteq> []"
  then have "fst (scan_events root (scanned s)) = p" "p \<noteq> []"
    by (simp_all add: find_agent_to_run_scan)
  then show "transfer_path_ok root p"
    using scan_events_transferable transferable_path by blast
next
  assume "events s = []"
  then show "fst (find_agent_to_run s root) = Some []"
    by (simp add: find_agent_to_run_def scanned_def)
qed

theorem scan_returns_transferable_agent_or_root_witness:
  "first_step_skipped handover_session
   \<and> scanned handover_session = [text_event ''locked'' ''done'', text_event ''helper'' ''hello'']
   \<and> \<not> qualifies demo_root (text_event ''locked'' ''done'')
   \<and> fst (find_agent_to_run handover_session demo_root) = Some [0]
   \<and> transfer_path_ok demo_root [0]
   \<and> events (session_of []) = []
   \<and> fst (find_agent_to_run (session_of []) demo_root) = Some []"
proof -
  have sk: "first_step_skipped handover_session"
    by (simp add: first_step_skipped_def handover_session_def session_of_def text_event_def
          new_event_def unanswered_def function_calls_def)
  have sc: "scanned handover_session = [text_event ''locked'' ''done'', text_event ''helper'' ''hello'']"
    by (simp add: scanned_def handover_session_def session_of_def text_event_def new_event_def)
  have q1: "\<not> qualifies demo_root (text_event ''locked'' ''done'')"
    by (simp add: qualifies_def demo_root_def text_event_def new_event_def find_sub_agent_def
          transferable_path transfer_path_ok_def)
  have q2: "qualifies demo_root (text_event ''helper'' ''hello'')"
    by (simp add: qualifies_def demo_root_def text_event_def new_event_def find_sub_agent_def
          transferable_path transfer_path_ok_def)
  have ag: "agent_of_event demo_root (text_event ''helper'' ''hello'') = [0]"
    by (simp add: agent_of_event_def demo_root_def text_event_def new_event_def find_sub_agent_def)
  have e: "events (session_of []) = []" by (simp add: session_of_def)
  note t = scan_returns_transferable_agent_or_root[of handover_session demo_root]
  from t sk have r: "fst (find_agent_to_run handover_session demo_root) = Some [0]"
    by (simp add: sc q1 q2 ag)
  from t sk have "\<forall>p. fst (find_agent_to_run handover_session demo_root) = Some p \<and> p \<noteq> []
      \<longrightarrow> transfer_path_ok demo_root p" by blast
  with r have "transfer_path_ok demo_root [0]" by simp
  moreover from scan_returns_transferable_agent_or_root[of "session_of []" demo_root] e
  have "fst (find_agent_to_run (session_of []) demo_root) = Some []" by simp
  ultimately show ?thesis using sk sc q1 r e by simp
qed

text \<open>
  C6. The events below carry a function call of an agent \<open>ghost\<close> that is not in the
  tree. The first step of \<open>_find_agent_to_run\<close> returns what \<open>find_agent\<close> gives for that
  name: no agent, and no warning is logged.
\<close>

theorem pending_call_of_unknown_agent_yields_no_agent:
  "find_matching_function_call (events ghost_session) = Some (call_event ''ghost'' ''c2'')
   \<and> find_agent demo_root ''ghost'' = None
   \<and> find_agent_to_run ghost_session demo_root = (None, [])"
  by (simp add: ghost_session_def session_of_def call_event_def response_event_def
        new_event_def unanswered_def function_calls_def function_responses_def
        find_agent_to_run_def demo_root_def)

section \<open>Execution pipeline: proofs\<close>

lemma persisted_append: "persisted (xs @ ys) = persisted xs @ persisted ys"
  by (induction xs rule: persisted.induct) auto

lemma yielded_append: "yielded (xs @ ys) = yielded xs @ yielded ys"
  by (induction xs rule: yielded.induct) auto

lemma hooked_append: "hooked (xs @ ys) = hooked xs @ hooked ys"
  by (induction xs rule: hooked.induct) auto

lemma exec_events_effects:
  "effects (fst (exec_events pm ctx g st)) =
     effects st @ concat (map (spec_event_steps pm ctx) (produced g))"
  by (induction g arbitrary: st)
     (simp_all add: Let_def emit_def append_event_def spec_event_steps_def)

lemma exec_events_session:
  "current_session (fst (exec_events pm ctx g st)) =
     (current_session st)\<lparr>events := events (current_session st) @ filter (\<lambda>e. \<not> is_partial e) (produced g)\<rparr>"
  by (induction g arbitrary: st)
     (simp_all add: Let_def emit_def append_event_def)

lemma exec_events_raises: "snd (exec_events pm ctx g st) = raises g"
  by (induction g arbitrary: st) (simp_all add: Let_def)

lemma steps_persisted:
  "persisted (concat (map (spec_event_steps pm ctx) evs)) = filter (\<lambda>e. \<not> is_partial e) evs"
  by (induction evs) (simp_all add: spec_event_steps_def persisted_append)

lemma steps_yielded:
  "yielded (concat (map (spec_event_steps pm ctx) evs)) =
     map (\<lambda>ev. case run_on_event_callback pm ctx ev of Some m \<Rightarrow> m | None \<Rightarrow> ev) evs"
  by (induction evs) (simp_all add: spec_event_steps_def yielded_append)

lemma steps_hooked:
  "hooked (concat (map (spec_event_steps pm ctx) evs)) = evs"
  by (induction evs) (simp_all add: spec_event_steps_def hooked_append)

lemma steps_no_execute:
  "\<not> list_ex is_execute (concat (map (spec_event_steps pm ctx) evs))"
  by (induction evs) (simp_all add: spec_event_steps_def)

lemma steps_no_after_run:
  "count_list (concat (map (spec_event_steps pm ctx) evs)) AfterRunCallback = 0"
  by (induction evs) (simp_all add: spec_event_steps_def)

lemma count_list_append_actions:
  "count_list (xs @ ys) (a :: action) = count_list xs a + count_list ys a"
  by (induction xs) simp_all

lemma exec_with_plugin_early:
  assumes "run_before_run_callback pm ctx = Some c"
  shows "exec_with_plugin pm ctx execute_fn st =
           (st\<lparr>current_session := (current_session st)\<lparr>events := events (current_session st) @
                    [new_event (ctx_invocation_id ctx) ''model'' c]\<rparr>,
               effects := effects st @
                 [BeforeRunCallback, AppendEvent (new_event (ctx_invocation_id ctx) ''model'' c),
                  YieldEvent (new_event (ctx_invocation_id ctx) ''model'' c), AfterRunCallback]\<rparr>, None)"
  using assms by (simp add: exec_with_plugin_def Let_def emit_def append_event_def)

lemma exec_with_plugin_normal:
  assumes "run_before_run_callback pm ctx = None"
  shows "effects (fst (exec_with_plugin pm ctx execute_fn st)) =
           effects st @ [BeforeRunCallback, ExecuteFn ctx (current_session st)] @
           concat (map (spec_event_steps pm ctx) (produced (execute_fn ctx (current_session st)))) @
           (if raises (execute_fn ctx (current_session st)) = None then [AfterRunCallback] else [])"
    and "current_session (fst (exec_with_plugin pm ctx execute_fn st)) =
           (current_session st)\<lparr>events := events (current_session st) @
              filter (\<lambda>e. \<not> is_partial e) (produced (execute_fn ctx (current_session st)))\<rparr>"
    and "snd (exec_with_plugin pm ctx execute_fn st) = raises (execute_fn ctx (current_session st))"
proof -
  let ?g = "execute_fn ctx (current_session st)"
  let ?st0 = "emit BeforeRunCallback st"
  let ?R = "exec_events pm ctx ?g (emit (ExecuteFn ctx (current_session st)) ?st0)"
  have cs: "current_session ?st0 = current_session st" by (simp add: emit_def)
  have unf: "exec_with_plugin pm ctx execute_fn st =
      (case ?R of (st1, None) \<Rightarrow> (emit AfterRunCallback st1, None)
                | (st1, Some err) \<Rightarrow> (st1, Some err))"
    using assms by (simp add: exec_with_plugin_def Let_def cs)
  have e: "effects (fst ?R) = effects st @ [BeforeRunCallback, ExecuteFn ctx (current_session st)] @
             concat (map (spec_event_steps pm ctx) (produced ?g))"
    by (simp add: exec_events_effects emit_def)
  have s: "current_session (fst ?R) = (current_session st)\<lparr>events := events (current_session st) @
              filter (\<lambda>e. \<not> is_partial e) (produced ?g)\<rparr>"
    by (simp add: exec_events_session emit_def)
  have r: "snd ?R = raises ?g" by (simp add: exec_events_raises)
  obtain st1 res where R: "?R = (st1, res)" by (cases ?R)
  with e s r have e': "effects st1 = effects st @ [BeforeRunCallback, ExecuteFn ctx (current_session st)] @
             concat (map (spec_event_steps pm ctx) (produced ?g))"
    and s': "current_session st1 = (current_session st)\<lparr>events := events (current_session st) @
              filter (\<lambda>e. \<not> is_partial e) (produced ?g)\<rparr>"
    and r': "raises ?g = res" by simp_all
  show "effects (fst (exec_with_plugin pm ctx execute_fn st)) =
           effects st @ [BeforeRunCallback, ExecuteFn ctx (current_session st)] @
           concat (map (spec_event_steps pm ctx) (produced ?g)) @
           (if raises ?g = None then [AfterRunCallback] else [])"
    unfolding unf R using e' r' by (cases res) (simp_all add: emit_def)
  show "current_session (fst (exec_with_plugin pm ctx execute_fn st)) =
           (current_session st)\<lparr>events := events (current_session st) @
              filter (\<lambda>e. \<not> is_partial e) (produced ?g)\<rparr>"
    unfolding unf R using s' by (cases res) (simp_all add: emit_def)
  show "snd (exec_with_plugin pm ctx execute_fn st) = raises ?g"
    unfolding unf R using r' by (cases res) simp_all
qed

text \<open>
  C1. When the before-run callback returns a content, the pipeline persists one event
  and yields that same event: it is authored by \<open>'model'\<close>, carries the content and is not
  partial. The actions of the run are the callback, the append, the yield and the
  after-run callback, so \<open>execute_fn\<close> is not called and no agent event occurs.
\<close>

theorem before_run_short_circuit:
  assumes "run_before_run_callback pm ctx = Some c"
  shows "\<exists>ev st'. exec_with_plugin pm ctx execute_fn st = (st', None)
           \<and> author ev = ''model'' \<and> content ev = Some c \<and> \<not> is_partial ev
           \<and> invocation_id ev = ctx_invocation_id ctx
           \<and> effects st' = effects st @ [BeforeRunCallback, AppendEvent ev, YieldEvent ev, AfterRunCallback]
           \<and> events (current_session st') = events (current_session st) @ [ev]
           \<and> persisted (since st st') = [ev]
           \<and> yielded (since st st') = [ev]
           \<and> hooked (since st st') = []
           \<and> \<not> list_ex is_execute (since st st')"
proof -
  let ?ev = "new_event (ctx_invocation_id ctx) ''model'' c"
  let ?st' = "st\<lparr>current_session := (current_session st)\<lparr>events := events (current_session st) @ [?ev]\<rparr>,
               effects := effects st @ [BeforeRunCallback, AppendEvent ?ev, YieldEvent ?ev, AfterRunCallback]\<rparr>"
  have "exec_with_plugin pm ctx execute_fn st = (?st', None)"
    using assms by (rule exec_with_plugin_early)
  moreover have "author ?ev = ''model''" "content ?ev = Some c" "\<not> is_partial ?ev"
    "invocation_id ?ev = ctx_invocation_id ctx"
    by (simp_all add: new_event_def is_partial_def)
  moreover have "since st ?st' = [BeforeRunCallback, AppendEvent ?ev, YieldEvent ?ev, AfterRunCallback]"
    by (simp add: since_def)
  ultimately show ?thesis
    by (intro exI[of _ ?ev] exI[of _ ?st']) simp
qed

theorem before_run_short_circuit_witness:
  "run_before_run_callback maintenance_plugins demo_context = Some maintenance
   \<and> (\<exists>ev st'. exec_with_plugin maintenance_plugins demo_context helper_run demo_state = (st', None)
         \<and> author ev = ''model'' \<and> content ev = Some maintenance
         \<and> effects st' = [BeforeRunCallback, AppendEvent ev, YieldEvent ev, AfterRunCallback]
         \<and> events (current_session st') = [text_event ''user'' ''hi'', ev])"
proof -
  have h: "run_before_run_callback maintenance_plugins demo_context = Some maintenance"
    by (simp add: maintenance_plugins_def)
  from before_run_short_circuit[OF h, of helper_run demo_state]
  obtain ev st' where
    "exec_with_plugin maintenance_plugins demo_context helper_run demo_state = (st', None)"
    "author ev = ''model''" "content ev = Some maintenance"
    "effects st' = effects demo_state @ [BeforeRunCallback, AppendEvent ev, YieldEvent ev, AfterRunCallback]"
    "events (current_session st') = events (current_session demo_state) @ [ev]"
    by blast
  then have "exec_with_plugin maintenance_plugins demo_context helper_run demo_state = (st', None)
         \<and> author ev = ''model'' \<and> content ev = Some maintenance
         \<and> effects st' = [BeforeRunCallback, AppendEvent ev, YieldEvent ev, AfterRunCallback]
         \<and> events (current_session st') = [text_event ''user'' ''hi'', ev]"
    by (simp add: demo_state_def session_of_def)
  with h show ?thesis by blast
qed

text \<open>
  C2. When the before-run callback returns nothing, the actions of the run are the
  callback, the call of \<open>execute_fn\<close>, then for every event it produces the steps of
  section 4.2 (the append first, unless the event is partial; the on-event callback; the
  yield of the replacement if there is one, of the event otherwise), and at most the
  after-run callback at the end. So the session gains the events that are not partial,
  in order; every event goes through the on-event callback; and what is yielded is, event
  by event, the replacement or else the original.
\<close>

theorem normal_execution_persists_and_yields:
  assumes "run_before_run_callback pm ctx = None"
  shows "\<exists>tail.
           effects (fst (exec_with_plugin pm ctx execute_fn st)) =
             effects st @ [BeforeRunCallback, ExecuteFn ctx (current_session st)]
             @ concat (map (spec_event_steps pm ctx) (produced (execute_fn ctx (current_session st))))
             @ tail
           \<and> (tail = [] \<or> tail = [AfterRunCallback])
           \<and> events (current_session (fst (exec_with_plugin pm ctx execute_fn st))) =
               events (current_session st)
               @ filter (\<lambda>e. \<not> is_partial e) (produced (execute_fn ctx (current_session st)))
           \<and> persisted (since st (fst (exec_with_plugin pm ctx execute_fn st))) =
               filter (\<lambda>e. \<not> is_partial e) (produced (execute_fn ctx (current_session st)))
           \<and> hooked (since st (fst (exec_with_plugin pm ctx execute_fn st))) =
               produced (execute_fn ctx (current_session st))
           \<and> yielded (since st (fst (exec_with_plugin pm ctx execute_fn st))) =
               map (\<lambda>ev. case run_on_event_callback pm ctx ev of Some m \<Rightarrow> m | None \<Rightarrow> ev)
                   (produced (execute_fn ctx (current_session st)))"
proof -
  let ?g = "execute_fn ctx (current_session st)"
  let ?R = "exec_with_plugin pm ctx execute_fn st"
  let ?tail = "if raises ?g = None then [AfterRunCallback] else []"
  note n = exec_with_plugin_normal[OF assms, of execute_fn st]
  have e: "effects (fst ?R) = effects st @ [BeforeRunCallback, ExecuteFn ctx (current_session st)]
             @ concat (map (spec_event_steps pm ctx) (produced ?g)) @ ?tail"
    by (rule n(1))
  have t: "?tail = [] \<or> ?tail = [AfterRunCallback]" by simp
  have s: "events (current_session (fst ?R)) =
             events (current_session st) @ filter (\<lambda>e. \<not> is_partial e) (produced ?g)"
    by (simp add: n(2))
  have si: "since st (fst ?R) = [BeforeRunCallback, ExecuteFn ctx (current_session st)]
             @ concat (map (spec_event_steps pm ctx) (produced ?g)) @ ?tail"
    by (simp add: since_def e)
  have p: "persisted (since st (fst ?R)) = filter (\<lambda>e. \<not> is_partial e) (produced ?g)"
    by (simp add: si persisted_append steps_persisted)
  have h: "hooked (since st (fst ?R)) = produced ?g"
    by (simp add: si hooked_append steps_hooked)
  have y: "yielded (since st (fst ?R)) =
             map (\<lambda>ev. case run_on_event_callback pm ctx ev of Some m \<Rightarrow> m | None \<Rightarrow> ev) (produced ?g)"
    by (simp add: si yielded_append steps_yielded)
  from e t s p h y show ?thesis by blast
qed

theorem normal_execution_persists_and_yields_witness:
  "run_before_run_callback redacting_plugins demo_context = None
   \<and> produced (helper_run demo_context (current_session demo_state)) = [fragment, answer]
   \<and> is_partial fragment \<and> \<not> is_partial answer
   \<and> events (current_session (fst (exec_with_plugin redacting_plugins demo_context helper_run demo_state)))
       = [text_event ''user'' ''hi'', answer]
   \<and> hooked (since demo_state (fst (exec_with_plugin redacting_plugins demo_context helper_run demo_state)))
       = [fragment, answer]
   \<and> yielded (since demo_state (fst (exec_with_plugin redacting_plugins demo_context helper_run demo_state)))
       = [fragment, text_event ''helper'' ''redacted'']"
proof -
  have h: "run_before_run_callback redacting_plugins demo_context = None"
    by (simp add: redacting_plugins_def passive_plugins_def)
  have p: "produced (helper_run demo_context (current_session demo_state)) = [fragment, answer]"
    by (simp add: helper_run_def)
  have f: "is_partial fragment" "\<not> is_partial answer"
    by (simp_all add: fragment_def answer_def is_partial_def text_event_def new_event_def)
  have a: "author fragment = ''helper''" "author answer = ''helper''"
    by (simp_all add: fragment_def answer_def text_event_def new_event_def)
  have c: "run_on_event_callback redacting_plugins demo_context fragment = None"
    "run_on_event_callback redacting_plugins demo_context answer = Some (text_event ''helper'' ''redacted'')"
    using f a by (simp_all add: redacting_plugins_def passive_plugins_def)
  let ?R = "exec_with_plugin redacting_plugins demo_context helper_run demo_state"
  let ?g = "helper_run demo_context (current_session demo_state)"
  from normal_execution_persists_and_yields[OF h, of helper_run demo_state]
  have s: "events (current_session (fst ?R)) =
             events (current_session demo_state) @ filter (\<lambda>e. \<not> is_partial e) (produced ?g)"
    and k: "hooked (since demo_state (fst ?R)) = produced ?g"
    and y: "yielded (since demo_state (fst ?R)) =
             map (\<lambda>ev. case run_on_event_callback redacting_plugins demo_context ev of
                         Some m \<Rightarrow> m | None \<Rightarrow> ev) (produced ?g)"
    by blast+
  have s': "events (current_session (fst ?R)) = [text_event ''user'' ''hi'', answer]"
    unfolding s p using f by (simp add: demo_state_def session_of_def)
  have k': "hooked (since demo_state (fst ?R)) = [fragment, answer]"
    unfolding k p ..
  have y': "yielded (since demo_state (fst ?R)) = [fragment, text_event ''helper'' ''redacted'']"
    unfolding y p using c by simp
  from h p f s' k' y' show ?thesis by blast
qed

text \<open>
  C3. The pipeline raises exactly when the before-run callback returned nothing and the
  event sequence of \<open>execute_fn\<close> raises, and then with that error. The after-run callback
  is called once when the pipeline does not raise (short-circuited or not) and not at
  all when it raises.
\<close>

theorem after_run_once_unless_raised:
  "snd (exec_with_plugin pm ctx execute_fn st) =
     (case run_before_run_callback pm ctx of
        Some c \<Rightarrow> None
      | None \<Rightarrow> raises (execute_fn ctx (current_session st)))
   \<and> count_list (since st (fst (exec_with_plugin pm ctx execute_fn st))) AfterRunCallback =
       (if snd (exec_with_plugin pm ctx execute_fn st) = None then 1 else 0)"
proof (cases "run_before_run_callback pm ctx")
  case None
  note n = exec_with_plugin_normal[OF None, of execute_fn st]
  have "since st (fst (exec_with_plugin pm ctx execute_fn st)) =
          [BeforeRunCallback, ExecuteFn ctx (current_session st)]
          @ concat (map (spec_event_steps pm ctx) (produced (execute_fn ctx (current_session st))))
          @ (if raises (execute_fn ctx (current_session st)) = None then [AfterRunCallback] else [])"
    by (simp add: since_def n(1))
  then show ?thesis
    using None n(3) by (simp add: count_list_append_actions steps_no_after_run)
next
  case (Some c)
  from exec_with_plugin_early[OF Some, of execute_fn st] Some show ?thesis
    by (simp add: since_def)
qed

theorem after_run_once_unless_raised_witness:
  "snd (exec_with_plugin passive_plugins demo_context failing_run demo_state) = Some (AgentError ''boom'')
   \<and> count_list (since demo_state (fst (exec_with_plugin passive_plugins demo_context failing_run demo_state)))
        AfterRunCallback = 0
   \<and> snd (exec_with_plugin passive_plugins demo_context helper_run demo_state) = None
   \<and> count_list (since demo_state (fst (exec_with_plugin passive_plugins demo_context helper_run demo_state)))
        AfterRunCallback = 1
   \<and> snd (exec_with_plugin maintenance_plugins demo_context failing_run demo_state) = None
   \<and> count_list (since demo_state (fst (exec_with_plugin maintenance_plugins demo_context failing_run demo_state)))
        AfterRunCallback = 1"
  using after_run_once_unless_raised[of passive_plugins demo_context failing_run demo_state]
        after_run_once_unless_raised[of passive_plugins demo_context helper_run demo_state]
        after_run_once_unless_raised[of maintenance_plugins demo_context failing_run demo_state]
  by (simp add: passive_plugins_def maintenance_plugins_def failing_run_def helper_run_def)

section \<open>\<open>run_async\<close> and \<open>run_live\<close>: proofs\<close>

lemma quiet_Nil: "quiet []"
  by (simp add: quiet_def)

lemma quiet_append: "quiet (xs @ ys) \<longleftrightarrow> quiet xs \<and> quiet ys"
  by (auto simp: quiet_def persisted_append yielded_append)

lemma quiet_save_actions: "quiet (save_actions iid i ps)"
  by (induction iid i ps rule: save_actions.induct) (simp_all add: quiet_def)

lemma save_input_blobs_eq:
  "save_input_blobs iid i ps st =
     (placeholder_parts iid i ps, st\<lparr>effects := effects st @ save_actions iid i ps\<rparr>)"
  by (induction iid i ps st rule: save_input_blobs.induct) (simp_all add: Let_def emit_def)

lemma user_event_fields:
  "author (user_event iid msg delta) = ''user''"
  "content (user_event iid msg delta) = Some msg"
  "invocation_id (user_event iid msg delta) = iid"
  "state_delta (actions (user_event iid msg delta)) = (case delta of None \<Rightarrow> [] | Some d \<Rightarrow> d)"
  "\<not> is_partial (user_event iid msg delta)"
  by (cases delta; simp add: new_event_def default_actions_def is_partial_def)+

lemma append_new_message_ok:
  assumes "parts m \<noteq> []"
  shows "\<exists>saves. quiet saves \<and>
     append_new_message_to_session r m ctx (save_input_blobs_as_artifacts cfg) delta st =
       (m\<lparr>parts := stored_parts r cfg (ctx_invocation_id ctx) m\<rparr>,
        st\<lparr>current_session := (current_session st)\<lparr>events := events (current_session st) @
               [user_event (ctx_invocation_id ctx)
                  (m\<lparr>parts := stored_parts r cfg (ctx_invocation_id ctx) m\<rparr>) delta]\<rparr>,
           effects := effects st @ saves @
               [AppendEvent (user_event (ctx_invocation_id ctx)
                  (m\<lparr>parts := stored_parts r cfg (ctx_invocation_id ctx) m\<rparr>) delta)]\<rparr>, None)"
proof (cases "artifact_service r \<and> save_input_blobs_as_artifacts cfg")
  case True
  with assms have "append_new_message_to_session r m ctx (save_input_blobs_as_artifacts cfg) delta st =
       (m\<lparr>parts := stored_parts r cfg (ctx_invocation_id ctx) m\<rparr>,
        st\<lparr>current_session := (current_session st)\<lparr>events := events (current_session st) @
               [user_event (ctx_invocation_id ctx)
                  (m\<lparr>parts := stored_parts r cfg (ctx_invocation_id ctx) m\<rparr>) delta]\<rparr>,
           effects := effects st @ save_actions (ctx_invocation_id ctx) 0 (parts m) @
               [AppendEvent (user_event (ctx_invocation_id ctx)
                  (m\<lparr>parts := stored_parts r cfg (ctx_invocation_id ctx) m\<rparr>) delta)]\<rparr>, None)"
    by (simp add: append_new_message_to_session_def save_input_blobs_eq stored_parts_def
          append_event_def Let_def)
  then show ?thesis using quiet_save_actions by blast
next
  case False
  with assms have "append_new_message_to_session r m ctx (save_input_blobs_as_artifacts cfg) delta st =
       (m\<lparr>parts := stored_parts r cfg (ctx_invocation_id ctx) m\<rparr>,
        st\<lparr>current_session := (current_session st)\<lparr>events := events (current_session st) @
               [user_event (ctx_invocation_id ctx)
                  (m\<lparr>parts := stored_parts r cfg (ctx_invocation_id ctx) m\<rparr>) delta]\<rparr>,
           effects := effects st @ [] @
               [AppendEvent (user_event (ctx_invocation_id ctx)
                  (m\<lparr>parts := stored_parts r cfg (ctx_invocation_id ctx) m\<rparr>) delta)]\<rparr>, None)"
    by (auto simp: append_new_message_to_session_def stored_parts_def append_event_def Let_def)
  then show ?thesis using quiet_Nil by blast
qed

lemma new_invocation_context_id:
  "new_invocation_context r iid msg lrq cfg = Inr ctx \<Longrightarrow> ctx_invocation_id ctx = iid"
  by (auto simp: new_invocation_context_def split: if_splits)

text \<open>
  C10, as amended. In a call of \<open>run_async\<close> whose session exists, whose invocation
  context can be built, and whose message (the one the on-user-message callback
  returned, or else the given one) is present and has parts, the runner appends one
  event to the session before it resolves the agent and before the pipeline starts: the
  event is authored by \<open>'user'\<close>, is not partial, carries that message (inline data
  replaced by the placeholder when blobs are saved as artifacts) and has the given state
  delta as its actions. Up to that append nothing is persisted or yielded and nothing is
  executed; the agent is resolved on the session that holds the event; everything after
  it is the pipeline, so the runner never yields the event.
\<close>

theorem user_message_appended_before_resolution:
  assumes "get_session r (app_name r) uid sid = Some s"
    and "new_invocation_context r iid new_message False cfg = Inr ctx"
    and "effective_message r ctx new_message = Some m"
    and "parts m \<noteq> []"
  shows "\<exists>pre st3 uev a ws.
           uev = user_event iid (m\<lparr>parts := stored_parts r cfg iid m\<rparr>) delta
           \<and> author uev = ''user''
           \<and> content uev = Some (m\<lparr>parts := stored_parts r cfg iid m\<rparr>)
           \<and> state_delta (actions uev) = (case delta of None \<Rightarrow> [] | Some d \<Rightarrow> d)
           \<and> \<not> is_partial uev
           \<and> quiet pre
           \<and> find_agent_to_run (s\<lparr>events := events s @ [uev]\<rparr>) (agent r) = (a, ws)
           \<and> effects st3 = pre @ [AppendEvent uev] @ map LogWarningUnknownAgent ws
           \<and> current_session st3 = s\<lparr>events := events s @ [uev]\<rparr>
           \<and> run_async r agent_run iid uid sid new_message delta cfg =
               finish (exec_with_plugin (plugins r)
                         ((context_after_append r ctx new_message
                             (m\<lparr>parts := stored_parts r cfg iid m\<rparr>))\<lparr>ctx_agent := a\<rparr>)
                         (execute agent_run) st3)"
proof -
  let ?uev = "user_event iid (m\<lparr>parts := stored_parts r cfg iid m\<rparr>) delta"
  let ?s1 = "s\<lparr>events := events s @ [?uev]\<rparr>"
  let ?st1 = "emit (OnUserMessageCallback new_message)
                \<lparr>current_session = s, effects = [GetSession (app_name r) uid sid]\<rparr>"
  let ?ctx' = "context_after_append r ctx new_message (m\<lparr>parts := stored_parts r cfg iid m\<rparr>)"
  have iid: "ctx_invocation_id ctx = iid"
    using assms(2) by (rule new_invocation_context_id)
  from append_new_message_ok[OF assms(4), of r ctx cfg delta ?st1]
  obtain saves where q: "quiet saves"
    and ap: "append_new_message_to_session r m ctx (save_input_blobs_as_artifacts cfg) delta ?st1 =
       (m\<lparr>parts := stored_parts r cfg iid m\<rparr>,
        ?st1\<lparr>current_session := (current_session ?st1)\<lparr>events := events (current_session ?st1) @ [?uev]\<rparr>,
            effects := effects ?st1 @ saves @ [AppendEvent ?uev]\<rparr>, None)"
    unfolding iid by blast
  obtain a ws where f: "find_agent_to_run ?s1 (agent r) = (a, ws)"
    by (cases "find_agent_to_run ?s1 (agent r)")
  let ?pre = "[GetSession (app_name r) uid sid, OnUserMessageCallback new_message] @ saves"
  let ?st3 = "\<lparr>current_session = ?s1,
               effects = ?pre @ [AppendEvent ?uev] @ map LogWarningUnknownAgent ws\<rparr>"
  have qp: "quiet ?pre"
    using q by (simp add: quiet_append) (simp add: quiet_def)
  have run: "run_async r agent_run iid uid sid new_message delta cfg =
               finish (exec_with_plugin (plugins r) (?ctx'\<lparr>ctx_agent := a\<rparr>) (execute agent_run) ?st3)"
    using assms(1-3) ap f
    by (simp add: run_async_def run_async_on_def Let_def resolve_agent_def emit_def)
  have "effects ?st3 = ?pre @ [AppendEvent ?uev] @ map LogWarningUnknownAgent ws"
    and "current_session ?st3 = ?s1" by simp_all
  with qp f run user_event_fields[of iid "m\<lparr>parts := stored_parts r cfg iid m\<rparr>" delta]
  show ?thesis by blast
qed

lemma upload_run_facts:
  "get_session demo_runner (app_name demo_runner) ''u1'' ''s1'' =
     Some (session_of [text_event ''user'' ''hi'', text_event ''helper'' ''hello''])"
  "new_invocation_context demo_runner ''e-1'' (Some upload_message) False demo_config = Inr upload_context"
  "effective_message demo_runner upload_context (Some upload_message) = Some upload_message"
  "parts upload_message \<noteq> []"
  by (simp_all add: demo_runner_def demo_sessions_def new_invocation_context_def demo_config_def
        upload_context_def demo_context_def effective_message_def passive_plugins_def
        upload_message_def)

theorem user_message_appended_before_resolution_witness:
  "get_session demo_runner (app_name demo_runner) ''u1'' ''s1'' =
     Some (session_of [text_event ''user'' ''hi'', text_event ''helper'' ''hello''])
   \<and> new_invocation_context demo_runner ''e-1'' (Some upload_message) False demo_config = Inr upload_context
   \<and> effective_message demo_runner upload_context (Some upload_message) = Some upload_message
   \<and> parts upload_message \<noteq> []
   \<and> stored_parts demo_runner demo_config ''e-1'' upload_message =
       [Text ''see this'', Text ''Uploaded file: artifact_e-1_1. It is saved into artifacts'']
   \<and> (\<exists>pre st3 uev a ws.
         uev = user_event ''e-1''
                 (upload_message\<lparr>parts := stored_parts demo_runner demo_config ''e-1'' upload_message\<rparr>)
                 (Some [(''k'', ''v'')])
         \<and> author uev = ''user''
         \<and> state_delta (actions uev) = [(''k'', ''v'')]
         \<and> quiet pre
         \<and> effects st3 = pre @ [AppendEvent uev] @ map LogWarningUnknownAgent ws
         \<and> run_async demo_runner demo_agents ''e-1'' ''u1'' ''s1'' (Some upload_message)
               (Some [(''k'', ''v'')]) demo_config =
             finish (exec_with_plugin (plugins demo_runner)
                       ((context_after_append demo_runner upload_context (Some upload_message)
                           (upload_message\<lparr>parts :=
                              stored_parts demo_runner demo_config ''e-1'' upload_message\<rparr>))
                        \<lparr>ctx_agent := a\<rparr>)
                       (execute demo_agents) st3))"
proof -
  have sp: "stored_parts demo_runner demo_config ''e-1'' upload_message =
       [Text ''see this'', Text ''Uploaded file: artifact_e-1_1. It is saved into artifacts'']"
    by (simp add: stored_parts_def demo_runner_def demo_config_def upload_message_def
          show_nat.simps[of "Suc 0"] digit_def)
  from user_message_appended_before_resolution[OF upload_run_facts,
         where agent_run = demo_agents and delta = "Some [(''k'', ''v'')]"]
  obtain pre st3 uev a ws where
    "uev = user_event ''e-1''
             (upload_message\<lparr>parts := stored_parts demo_runner demo_config ''e-1'' upload_message\<rparr>)
             (Some [(''k'', ''v'')])"
    "author uev = ''user''"
    "state_delta (actions uev) = (case Some [(''k'', ''v'')] of None \<Rightarrow> [] | Some d \<Rightarrow> d)"
    "quiet pre"
    "effects st3 = pre @ [AppendEvent uev] @ map LogWarningUnknownAgent ws"
    "run_async demo_runner demo_agents ''e-1'' ''u1'' ''s1'' (Some upload_message)
        (Some [(''k'', ''v'')]) demo_config =
      finish (exec_with_plugin (plugins demo_runner)
                ((context_after_append demo_runner upload_context (Some upload_message)
                    (upload_message\<lparr>parts :=
                       stored_parts demo_runner demo_config ''e-1'' upload_message\<rparr>))
                 \<lparr>ctx_agent := a\<rparr>)
                (execute demo_agents) st3)"
    by blast
  then have "\<exists>pre st3 uev a ws.
         uev = user_event ''e-1''
                 (upload_message\<lparr>parts := stored_parts demo_runner demo_config ''e-1'' upload_message\<rparr>)
                 (Some [(''k'', ''v'')])
         \<and> author uev = ''user''
         \<and> state_delta (actions uev) = [(''k'', ''v'')]
         \<and> quiet pre
         \<and> effects st3 = pre @ [AppendEvent uev] @ map LogWarningUnknownAgent ws
         \<and> run_async demo_runner demo_agents ''e-1'' ''u1'' ''s1'' (Some upload_message)
               (Some [(''k'', ''v'')]) demo_config =
             finish (exec_with_plugin (plugins demo_runner)
                       ((context_after_append demo_runner upload_context (Some upload_message)
                           (upload_message\<lparr>parts :=
                              stored_parts demo_runner demo_config ''e-1'' upload_message\<rparr>))
                        \<lparr>ctx_agent := a\<rparr>)
                       (execute demo_agents) st3)"
    by auto
  with upload_run_facts sp show ?thesis by blast
qed

text \<open>
  C10 as stated fails for a message without parts: the message is given (and truthy),
  the call raises, and no event is appended to the session.
\<close>

theorem message_without_parts_counterexample:
  "raised (run_async demo_runner demo_agents ''e-1'' ''u1'' ''s1'' (Some empty_message) None demo_config)
     = Some (ValueError ''No parts in the new_message.'')
   \<and> persisted (actions_done
         (run_async demo_runner demo_agents ''e-1'' ''u1'' ''s1'' (Some empty_message) None demo_config))
     = []
   \<and> session_after
         (run_async demo_runner demo_agents ''e-1'' ''u1'' ''s1'' (Some empty_message) None demo_config)
     = Some (session_of [text_event ''user'' ''hi'', text_event ''helper'' ''hello''])"
  by (simp add: run_async_def demo_runner_def demo_sessions_def new_invocation_context_def
        demo_config_def effective_message_def passive_plugins_def empty_message_def
        append_new_message_to_session_def finish_def emit_def Let_def)

lemma fails_fast_not_found:
  "fails_fast \<lparr>actions_done = [GetSession a u i], raised = Some err, session_after = None\<rparr>"
  by (simp add: fails_fast_def quiet_def)

text \<open>
  C8, as amended. \<open>run_async\<close> for a session that does not exist, \<open>run_async\<close> with a
  message that, as the on-user-message callback leaves it (its replacement, or else the
  given message), has no parts, \<open>run_live\<close> with no session and without both ids, and
  \<open>run_live\<close> for a session that does not exist each raise a \<open>ValueError\<close> and fail
  fast: nothing has been persisted or yielded, the agent has not been executed, no run
  callback has been called, and the session has been looked up at most once.
\<close>

theorem precondition_violations_fail_fast:
  "(get_session r (app_name r) uid sid = None \<longrightarrow>
      raised (run_async r agent_run iid uid sid new_message delta cfg) =
        Some (ValueError (''Session not found: '' @ sid))
      \<and> fails_fast (run_async r agent_run iid uid sid new_message delta cfg))
   \<and> (\<forall>s ctx m.
         get_session r (app_name r) uid sid = Some s
         \<and> new_invocation_context r iid new_message False cfg = Inr ctx
         \<and> effective_message r ctx new_message = Some m
         \<and> parts m = [] \<longrightarrow>
           raised (run_async r agent_run iid uid sid new_message delta cfg) =
             Some (ValueError ''No parts in the new_message.'')
           \<and> fails_fast (run_async r agent_run iid uid sid new_message delta cfg))
   \<and> (luid = None \<or> lsid = None \<longrightarrow>
         raised (run_live r agent_run iid luid lsid lrq cfg None) =
           Some (ValueError ''Either session or user_id and session_id must be provided.'')
         \<and> actions_done (run_live r agent_run iid luid lsid lrq cfg None) = []
         \<and> fails_fast (run_live r agent_run iid luid lsid lrq cfg None))
   \<and> (\<forall>u i. get_session r (app_name r) u i = None \<longrightarrow>
         raised (run_live r agent_run iid (Some u) (Some i) lrq cfg None) =
           Some (ValueError (''Session not found: '' @ i))
         \<and> fails_fast (run_live r agent_run iid (Some u) (Some i) lrq cfg None))"
proof (intro conjI impI allI)
  assume "get_session r (app_name r) uid sid = None"
  then have "run_async r agent_run iid uid sid new_message delta cfg =
      \<lparr>actions_done = [GetSession (app_name r) uid sid],
       raised = Some (ValueError (''Session not found: '' @ sid)), session_after = None\<rparr>"
    by (simp add: run_async_def)
  then show "raised (run_async r agent_run iid uid sid new_message delta cfg) =
        Some (ValueError (''Session not found: '' @ sid))"
    and "fails_fast (run_async r agent_run iid uid sid new_message delta cfg)"
    by (simp_all add: fails_fast_not_found)
next
  fix s ctx m
  assume a: "get_session r (app_name r) uid sid = Some s
         \<and> new_invocation_context r iid new_message False cfg = Inr ctx
         \<and> effective_message r ctx new_message = Some m
         \<and> parts m = []"
  then have "run_async r agent_run iid uid sid new_message delta cfg =
      \<lparr>actions_done = [GetSession (app_name r) uid sid, OnUserMessageCallback new_message],
       raised = Some (ValueError ''No parts in the new_message.''), session_after = Some s\<rparr>"
    by (simp add: run_async_def Let_def append_new_message_to_session_def finish_def emit_def)
  then show "raised (run_async r agent_run iid uid sid new_message delta cfg) =
             Some (ValueError ''No parts in the new_message.'')"
    and "fails_fast (run_async r agent_run iid uid sid new_message delta cfg)"
    by (simp_all add: fails_fast_def quiet_def)
next
  assume "luid = None \<or> lsid = None"
  then have "run_live r agent_run iid luid lsid lrq cfg None =
      \<lparr>actions_done = [],
       raised = Some (ValueError ''Either session or user_id and session_id must be provided.''),
       session_after = None\<rparr>"
    by (auto simp: run_live_def split: option.splits)
  then show "raised (run_live r agent_run iid luid lsid lrq cfg None) =
           Some (ValueError ''Either session or user_id and session_id must be provided.'')"
    and "actions_done (run_live r agent_run iid luid lsid lrq cfg None) = []"
    and "fails_fast (run_live r agent_run iid luid lsid lrq cfg None)"
    by (simp_all add: fails_fast_def quiet_def)
next
  fix u i
  assume "get_session r (app_name r) u i = None"
  then have "run_live r agent_run iid (Some u) (Some i) lrq cfg None =
      \<lparr>actions_done = [GetSession (app_name r) u i],
       raised = Some (ValueError (''Session not found: '' @ i)), session_after = None\<rparr>"
    by (simp add: run_live_def)
  then show "raised (run_live r agent_run iid (Some u) (Some i) lrq cfg None) =
           Some (ValueError (''Session not found: '' @ i))"
    and "fails_fast (run_live r agent_run iid (Some u) (Some i) lrq cfg None)"
    by (simp_all add: fails_fast_not_found)
qed

lemma empty_run_facts:
  "get_session demo_runner (app_name demo_runner) ''u1'' ''s1'' =
     Some (session_of [text_event ''user'' ''hi'', text_event ''helper'' ''hello''])
   \<and> new_invocation_context demo_runner ''e-1'' (Some empty_message) False demo_config = Inr empty_context
   \<and> effective_message demo_runner empty_context (Some empty_message) = Some empty_message
   \<and> parts empty_message = []"
  by (simp add: demo_runner_def demo_sessions_def new_invocation_context_def demo_config_def
        empty_context_def demo_context_def effective_message_def passive_plugins_def
        empty_message_def)

theorem precondition_violations_fail_fast_witness:
  "get_session demo_runner (app_name demo_runner) ''u1'' ''s2'' = None
   \<and> raised (run_async demo_runner demo_agents ''e-1'' ''u1'' ''s2'' (Some upload_message) None demo_config)
       = Some (ValueError ''Session not found: s2'')
   \<and> fails_fast (run_async demo_runner demo_agents ''e-1'' ''u1'' ''s2'' (Some upload_message) None demo_config)
   \<and> parts empty_message = []
   \<and> raised (run_async demo_runner demo_agents ''e-1'' ''u1'' ''s1'' (Some empty_message) None demo_config)
       = Some (ValueError ''No parts in the new_message.'')
   \<and> fails_fast (run_async demo_runner demo_agents ''e-1'' ''u1'' ''s1'' (Some empty_message) None demo_config)
   \<and> raised (run_live demo_runner demo_agents ''e-1'' (Some ''u1'') None True demo_config None)
       = Some (ValueError ''Either session or user_id and session_id must be provided.'')
   \<and> fails_fast (run_live demo_runner demo_agents ''e-1'' (Some ''u1'') None True demo_config None)
   \<and> raised (run_live demo_runner demo_agents ''e-1'' (Some ''u1'') (Some ''s2'') True demo_config None)
       = Some (ValueError ''Session not found: s2'')
   \<and> fails_fast (run_live demo_runner demo_agents ''e-1'' (Some ''u1'') (Some ''s2'') True demo_config None)"
proof -
  have n: "get_session demo_runner (app_name demo_runner) ''u1'' ''s2'' = None"
    by (simp add: demo_runner_def demo_sessions_def)
  have e: "parts empty_message = []" by (simp add: empty_message_def)
  note t1 = precondition_violations_fail_fast[where r = demo_runner and uid = "''u1''"
      and sid = "''s2''" and agent_run = demo_agents and iid = "''e-1''"
      and new_message = "Some upload_message" and delta = None and cfg = demo_config
      and luid = "Some ''u1''" and lsid = None and lrq = True]
  note t2 = precondition_violations_fail_fast[where r = demo_runner and uid = "''u1''"
      and sid = "''s1''" and agent_run = demo_agents and iid = "''e-1''"
      and new_message = "Some empty_message" and delta = None and cfg = demo_config
      and luid = "Some ''u1''" and lsid = None and lrq = True]
  from t1 n have a: "raised (run_async demo_runner demo_agents ''e-1'' ''u1'' ''s2'' (Some upload_message) None demo_config)
       = Some (ValueError (''Session not found: '' @ ''s2''))
     \<and> fails_fast (run_async demo_runner demo_agents ''e-1'' ''u1'' ''s2'' (Some upload_message) None demo_config)"
    by blast
  from t2 empty_run_facts have b: "raised (run_async demo_runner demo_agents ''e-1'' ''u1'' ''s1'' (Some empty_message) None demo_config)
       = Some (ValueError ''No parts in the new_message.'')
     \<and> fails_fast (run_async demo_runner demo_agents ''e-1'' ''u1'' ''s1'' (Some empty_message) None demo_config)"
    by blast
  from t1 have c: "raised (run_live demo_runner demo_agents ''e-1'' (Some ''u1'') None True demo_config None)
       = Some (ValueError ''Either session or user_id and session_id must be provided.'')
     \<and> fails_fast (run_live demo_runner demo_agents ''e-1'' (Some ''u1'') None True demo_config None)"
    by blast
  from t1 n have d: "raised (run_live demo_runner demo_agents ''e-1'' (Some ''u1'') (Some ''s2'') True demo_config None)
       = Some (ValueError (''Session not found: '' @ ''s2''))
     \<and> fails_fast (run_live demo_runner demo_agents ''e-1'' (Some ''u1'') (Some ''s2'') True demo_config None)"
    by blast
  from n e a b c d show ?thesis by simp
qed

text \<open>
  C8 as stated fails for a supplied message without parts that the on-user-message
  callback replaces: the replacement has parts, nothing is raised, and the run persists
  and yields events.
\<close>

theorem replaced_empty_message_counterexample:
  "parts empty_message = []
   \<and> raised (run_async replacing_runner demo_agents ''e-1'' ''u1'' ''s1'' (Some empty_message) None demo_config)
       = None
   \<and> yielded (actions_done
        (run_async replacing_runner demo_agents ''e-1'' ''u1'' ''s1'' (Some empty_message) None demo_config))
       = [fragment, answer]
   \<and> persisted (actions_done
        (run_async replacing_runner demo_agents ''e-1'' ''u1'' ''s1'' (Some empty_message) None demo_config))
       = [user_event ''e-1'' greeting None, answer]
   \<and> \<not> fails_fast
        (run_async replacing_runner demo_agents ''e-1'' ''u1'' ''s1'' (Some empty_message) None demo_config)"
proof -
  let ?ctx = "empty_context\<lparr>ctx_agent := Some [0]\<rparr>"
  let ?s1 = "session_of [text_event ''user'' ''hi'', text_event ''helper'' ''hello'',
                         user_event ''e-1'' greeting None]"
  let ?st = "\<lparr>current_session = ?s1,
              effects = [GetSession ''app'' ''u1'' ''s1'', OnUserMessageCallback (Some empty_message),
                         AppendEvent (user_event ''e-1'' greeting None)]\<rparr>"
  have f: "find_agent_to_run ?s1 demo_root = (Some [0], [])"
    by (simp add: find_agent_to_run_def session_of_def text_event_def new_event_def
          unanswered_def function_calls_def greeting_def scanned_def demo_root_def
          find_sub_agent_def transferable_path transfer_path_ok_def)
  have run: "run_async replacing_runner demo_agents ''e-1'' ''u1'' ''s1'' (Some empty_message) None demo_config
      = finish (exec_with_plugin replacing_plugins ?ctx (execute demo_agents) ?st)"
    using f
    by (simp add: run_async_def run_async_on_def replacing_runner_def demo_runner_def
          demo_sessions_def new_invocation_context_def demo_config_def effective_message_def
          context_after_append_def replacing_plugins_def passive_plugins_def
          append_new_message_to_session_def greeting_def emit_def append_event_def
          resolve_agent_def Let_def empty_context_def demo_context_def session_of_def)
  have b: "run_before_run_callback replacing_plugins ?ctx = None"
    by (simp add: replacing_plugins_def passive_plugins_def)
  have g: "\<And>x. execute demo_agents ?ctx x = Emit fragment (Emit answer Stop)"
    by (simp add: execute_def demo_agents_def helper_run_def)
  have c: "run_on_event_callback replacing_plugins ?ctx fragment = None"
    "run_on_event_callback replacing_plugins ?ctx answer = None"
    by (simp_all add: replacing_plugins_def passive_plugins_def)
  have p: "is_partial fragment" "\<not> is_partial answer"
    by (simp_all add: fragment_def answer_def is_partial_def text_event_def new_event_def)
  note n = exec_with_plugin_normal[OF b, of "execute demo_agents" ?st]
  have e: "actions_done (run_async replacing_runner demo_agents ''e-1'' ''u1'' ''s1''
              (Some empty_message) None demo_config) =
        [GetSession ''app'' ''u1'' ''s1'', OnUserMessageCallback (Some empty_message),
         AppendEvent (user_event ''e-1'' greeting None),
         BeforeRunCallback, ExecuteFn ?ctx ?s1,
         OnEventCallback fragment, YieldEvent fragment,
         AppendEvent answer, OnEventCallback answer, YieldEvent answer, AfterRunCallback]"
    unfolding run
    using n(1) c p by (simp add: finish_def g spec_event_steps_def)
  have r: "raised (run_async replacing_runner demo_agents ''e-1'' ''u1'' ''s1''
              (Some empty_message) None demo_config) = None"
    unfolding run using n(3) by (simp add: finish_def g)
  have y: "yielded (actions_done (run_async replacing_runner demo_agents ''e-1'' ''u1'' ''s1''
              (Some empty_message) None demo_config)) = [fragment, answer]"
    unfolding e by simp
  have ps: "persisted (actions_done (run_async replacing_runner demo_agents ''e-1'' ''u1'' ''s1''
              (Some empty_message) None demo_config)) = [user_event ''e-1'' greeting None, answer]"
    unfolding e by simp
  have ff: "\<not> fails_fast (run_async replacing_runner demo_agents ''e-1'' ''u1'' ''s1''
              (Some empty_message) None demo_config)"
    using r by (simp add: fails_fast_def)
  have "parts empty_message = []" by (simp add: empty_message_def)
  with r y ps ff show ?thesis by blast
qed

section \<open>Blocking run: proofs\<close>

lemma bridge_inv_start: "bridge_inv (yielded (actions_done res)) (bridge_start res)"
  by (simp add: bridge_inv_def bridge_start_def)

lemma bridge_inv_worker:
  assumes "bridge_inv evs b" and "worker_step b = Some b'"
  shows "bridge_inv evs b'"
proof (cases "thread b")
  case (Invoking es err)
  with assms(1) obtain qs where g: "consumer b = Getting"
    and q: "event_queue b = map Some qs" and e: "reyielded b @ qs @ es = evs"
    by (auto simp: bridge_inv_def)
  show ?thesis
  proof (cases es)
    case Nil
    with Invoking assms(2)
    have b': "b' = b\<lparr>thread := ThreadMainFinally err, event_queue := event_queue b @ [None]\<rparr>"
      by (simp add: worker_step_def)
    from q e Nil have "event_queue b @ [None] = map Some qs @ [None] \<and> reyielded b @ qs = evs"
      by simp
    with g b' show ?thesis by (auto simp: bridge_inv_def)
  next
    case (Cons x xs)
    with Invoking assms(2)
    have b': "b' = b\<lparr>thread := Invoking xs err, event_queue := event_queue b @ [Some x]\<rparr>"
      by (simp add: worker_step_def)
    from q e Cons have "\<exists>qs'. event_queue b @ [Some x] = map Some qs'
        \<and> reyielded b @ qs' @ xs = evs"
      by (intro exI[of _ "qs @ [x]"]) simp
    with g b' show ?thesis by (simp add: bridge_inv_def)
  qed
next
  case (ThreadMainFinally err)
  with assms(2)
  have b': "b' = b\<lparr>thread := Exited err, event_queue := event_queue b @ [None]\<rparr>"
    by (simp add: worker_step_def)
  from assms(1) ThreadMainFinally
  have "(consumer b = Getting
             \<and> (\<exists>qs. event_queue b = map Some qs @ [None] \<and> reyielded b @ qs = evs))
          \<or> (consumer b = Joining \<and> event_queue b = [] \<and> reyielded b = evs)"
    by (simp add: bridge_inv_def)
  with b' show ?thesis by (auto simp: bridge_inv_def)
next
  case (Exited err)
  with assms(2) show ?thesis by (simp add: worker_step_def)
qed

lemma bridge_inv_caller:
  assumes "bridge_inv evs b" and "caller_step b = Some b'"
  shows "bridge_inv evs b'"
proof (cases "consumer b")
  case Getting
  show ?thesis
  proof (cases "event_queue b")
    case Nil
    with Getting assms(2) show ?thesis by (simp add: caller_step_def)
  next
    case (Cons item q)
    show ?thesis
    proof (cases item)
      case None
      with Cons Getting assms(2) have b': "b' = b\<lparr>event_queue := q, consumer := Joining\<rparr>"
        by (simp add: caller_step_def)
      show ?thesis
      proof (cases "thread b")
        case (Invoking es err)
        with assms(1) Cons None show ?thesis by (auto simp: bridge_inv_def)
      next
        case (ThreadMainFinally err)
        with assms(1) Getting obtain qs where
          "event_queue b = map Some qs @ [None]" "reyielded b @ qs = evs"
          by (auto simp: bridge_inv_def)
        with Cons None have "qs = []" "q = []" "reyielded b = evs"
          by (cases qs; auto)+
        with b' ThreadMainFinally show ?thesis by (simp add: bridge_inv_def)
      next
        case (Exited err)
        with assms(1) Getting obtain qs where
          "event_queue b = map Some qs @ [None, None]" "reyielded b @ qs = evs"
          by (auto simp: bridge_inv_def)
        with Cons None have "qs = []" "q = [None]" "reyielded b = evs"
          by (cases qs; auto)+
        with b' Exited show ?thesis by (simp add: bridge_inv_def)
      qed
    next
      case (Some x)
      with Cons Getting assms(2)
      have b': "b' = b\<lparr>event_queue := q, reyielded := reyielded b @ [x]\<rparr>"
        by (simp add: caller_step_def)
      show ?thesis
      proof (cases "thread b")
        case (Invoking es err)
        with assms(1) obtain qs where "event_queue b = map Some qs" "reyielded b @ qs @ es = evs"
          by (auto simp: bridge_inv_def)
        with Cons Some obtain qs' where "qs = x # qs'" "q = map Some qs'"
          by (cases qs) auto
        with \<open>reyielded b @ qs @ es = evs\<close>
        have "\<exists>qs'. q = map Some qs' \<and> (reyielded b @ [x]) @ qs' @ es = evs" by simp
        with b' Invoking Getting show ?thesis by (simp add: bridge_inv_def)
      next
        case (ThreadMainFinally err)
        with assms(1) Getting obtain qs where
          "event_queue b = map Some qs @ [None]" "reyielded b @ qs = evs"
          by (auto simp: bridge_inv_def)
        with Cons Some obtain qs' where "qs = x # qs'" "q = map Some qs' @ [None]"
          by (cases qs) auto
        with \<open>reyielded b @ qs = evs\<close>
        have "\<exists>qs'. q = map Some qs' @ [None] \<and> (reyielded b @ [x]) @ qs' = evs" by simp
        with b' ThreadMainFinally Getting show ?thesis by (simp add: bridge_inv_def)
      next
        case (Exited err)
        with assms(1) Getting obtain qs where
          "event_queue b = map Some qs @ [None, None]" "reyielded b @ qs = evs"
          by (auto simp: bridge_inv_def)
        with Cons Some obtain qs' where "qs = x # qs'" "q = map Some qs' @ [None, None]"
          by (cases qs) auto
        with \<open>reyielded b @ qs = evs\<close>
        have "\<exists>qs'. q = map Some qs' @ [None, None] \<and> (reyielded b @ [x]) @ qs' = evs" by simp
        with b' Exited Getting show ?thesis by (simp add: bridge_inv_def)
      qed
    qed
  qed
next
  case Joining
  show ?thesis
  proof (cases "thread b")
    case (Exited err)
    with Joining assms(2) have b': "b' = b\<lparr>consumer := Returned None\<rparr>"
      by (simp add: caller_step_def)
    from assms(1) Exited Joining have "event_queue b = [None] \<and> reyielded b = evs"
      by (simp add: bridge_inv_def)
    with b' Exited show ?thesis by (simp add: bridge_inv_def)
  next
    case (Invoking es err)
    with Joining assms(2) show ?thesis by (simp add: caller_step_def)
  next
    case (ThreadMainFinally err)
    with Joining assms(2) show ?thesis by (simp add: caller_step_def)
  qed
next
  case (Returned x)
  with assms(2) show ?thesis by (simp add: caller_step_def)
qed

lemma bridge_inv_step: "bridge_inv evs b \<Longrightarrow> bridge_step b b' \<Longrightarrow> bridge_inv evs b'"
  unfolding bridge_step_def using bridge_inv_worker bridge_inv_caller by blast

lemma bridge_inv_reachable:
  "rtranclp bridge_step b b' \<Longrightarrow> bridge_inv evs b \<Longrightarrow> bridge_inv evs b'"
  by (induction rule: rtranclp_induct) (auto intro: bridge_inv_step)

lemma bridge_inv_prefix: "bridge_inv evs b \<Longrightarrow> prefix (reyielded b) evs"
  by (cases "thread b") (auto simp: bridge_inv_def prefix_def)

lemma bridge_inv_done: "bridge_inv evs b \<Longrightarrow> consumer b \<noteq> Getting \<Longrightarrow> reyielded b = evs"
  by (cases "thread b") (auto simp: bridge_inv_def)

lemma bridge_inv_no_error: "bridge_inv evs b \<Longrightarrow> consumer b = Returned x \<Longrightarrow> x = None"
  by (cases "thread b") (auto simp: bridge_inv_def)

lemma bridge_inv_progress:
  assumes "bridge_inv evs b"
  shows "(\<exists>x. consumer b = Returned x) \<or> (\<exists>b'. bridge_step b b')"
proof (cases "thread b")
  case (Invoking es err)
  then have "\<exists>b'. worker_step b = Some b'"
    by (cases es) (simp_all add: worker_step_def)
  then show ?thesis unfolding bridge_step_def by blast
next
  case (ThreadMainFinally err)
  then have "\<exists>b'. worker_step b = Some b'" by (simp add: worker_step_def)
  then show ?thesis unfolding bridge_step_def by blast
next
  case (Exited err)
  with assms have c: "(consumer b = Getting
             \<and> (\<exists>qs. event_queue b = map Some qs @ [None, None]))
          \<or> consumer b = Joining \<or> consumer b = Returned None"
    by (auto simp: bridge_inv_def)
  then show ?thesis
  proof (elim disjE conjE exE)
    fix qs assume g: "consumer b = Getting" and q: "event_queue b = map Some qs @ [None, None]"
    then have "event_queue b \<noteq> []" by simp
    then obtain item rest where "event_queue b = item # rest" by (cases "event_queue b") auto
    with g have "\<exists>b'. caller_step b = Some b'"
      by (cases item) (simp_all add: caller_step_def)
    then show ?thesis unfolding bridge_step_def by blast
  next
    assume "consumer b = Joining"
    with Exited have "\<exists>b'. caller_step b = Some b'" by (simp add: caller_step_def)
    then show ?thesis unfolding bridge_step_def by blast
  next
    assume "consumer b = Returned None"
    then show ?thesis by blast
  qed
qed

lemma worker_step_decreases: "worker_step b = Some b' \<Longrightarrow> steps_left b' < steps_left b"
  by (auto simp: worker_step_def steps_left_def split: worker.splits list.splits)

lemma caller_step_decreases: "caller_step b = Some b' \<Longrightarrow> steps_left b' < steps_left b"
  by (auto simp: caller_step_def steps_left_def
           split: caller.splits list.splits option.splits worker.splits)

lemma bridge_step_terminates: "wf {(b', b). bridge_step b b'}"
proof (rule wf_subset[OF wf_measure[of steps_left]])
  show "{(b', b). bridge_step b b'} \<subseteq> measure steps_left"
    using worker_step_decreases caller_step_decreases
    by (auto simp: bridge_step_def)
qed

lemma run_schedule_reachable: "rtranclp bridge_step b (run_schedule ws b)"
proof (induction ws arbitrary: b)
  case Nil
  show ?case by simp
next
  case (Cons w ws)
  show ?case
  proof (cases "if w then worker_step b else caller_step b")
    case None
    with Cons[of b] show ?thesis by simp
  next
    case (Some b')
    then have "bridge_step b b'" by (auto simp: bridge_step_def split: if_splits)
    with Cons[of b'] Some show ?thesis
      by (simp add: converse_rtranclp_into_rtranclp)
  qed
qed

text \<open>
  C7. Let the worker thread and the calling thread of a blocking \<open>run\<close> take their steps
  in any order. No run goes on for ever. At every moment the events re-yielded so far
  are a prefix of the events \<open>run_async\<close> yields; once the caller has taken the
  \<open>None\<close> that ends the stream, they are exactly those events, in the same order. Until
  the caller has returned, one of the two threads can take a step, so the caller is
  never blocked for good, whether \<open>run_async\<close> ends normally or raises; and the caller
  returns without an error.
\<close>

theorem blocking_run_reyields_run_async:
  "wf {(b', b). bridge_step b b'}
   \<and> (\<forall>b. rtranclp bridge_step (run r agent_run iid uid sid new_message cfg) b \<longrightarrow>
         prefix (reyielded b)
           (yielded (actions_done (run_async r agent_run iid uid sid new_message None cfg)))
         \<and> (consumer b \<noteq> Getting \<longrightarrow>
              reyielded b =
                yielded (actions_done (run_async r agent_run iid uid sid new_message None cfg)))
         \<and> (\<forall>x. consumer b = Returned x \<longrightarrow> x = None)
         \<and> ((\<exists>x. consumer b = Returned x) \<or> (\<exists>b'. bridge_step b b')))"
proof (intro conjI allI impI)
  show "wf {(b', b). bridge_step b b'}" by (rule bridge_step_terminates)
next
  fix b
  assume "rtranclp bridge_step (run r agent_run iid uid sid new_message cfg) b"
  then have inv: "bridge_inv
      (yielded (actions_done (run_async r agent_run iid uid sid new_message None cfg))) b"
    unfolding run_def using bridge_inv_reachable bridge_inv_start by blast
  from inv show "prefix (reyielded b)
           (yielded (actions_done (run_async r agent_run iid uid sid new_message None cfg)))"
    by (rule bridge_inv_prefix)
  from inv show "(\<exists>x. consumer b = Returned x) \<or> (\<exists>b'. bridge_step b b')"
    by (rule bridge_inv_progress)
  { assume "consumer b \<noteq> Getting"
    with inv show "reyielded b =
                yielded (actions_done (run_async r agent_run iid uid sid new_message None cfg))"
      by (rule bridge_inv_done) }
  { fix x assume "consumer b = Returned x"
    with inv show "x = None" by (rule bridge_inv_no_error) }
qed

lemma failing_run_async:
  "yielded (actions_done
      (run_async demo_runner failing_agents ''e-1'' ''u1'' ''s1'' (Some greeting) None demo_config))
     = [fragment, answer]"
  "raised (run_async demo_runner failing_agents ''e-1'' ''u1'' ''s1'' (Some greeting) None demo_config)
     = Some (AgentError ''boom'')"
proof -
  let ?ctx = "demo_context\<lparr>ctx_agent := Some [0], ctx_user_content := Some greeting\<rparr>"
  let ?s1 = "session_of [text_event ''user'' ''hi'', text_event ''helper'' ''hello'',
                         user_event ''e-1'' greeting None]"
  let ?st = "\<lparr>current_session = ?s1,
              effects = [GetSession ''app'' ''u1'' ''s1'', OnUserMessageCallback (Some greeting),
                         AppendEvent (user_event ''e-1'' greeting None)]\<rparr>"
  have f: "find_agent_to_run ?s1 demo_root = (Some [0], [])"
    by (simp add: find_agent_to_run_def session_of_def text_event_def new_event_def
          unanswered_def function_calls_def greeting_def scanned_def demo_root_def
          find_sub_agent_def transferable_path transfer_path_ok_def)
  have run: "run_async demo_runner failing_agents ''e-1'' ''u1'' ''s1'' (Some greeting) None demo_config
      = finish (exec_with_plugin passive_plugins ?ctx (execute failing_agents) ?st)"
    using f
    by (simp add: run_async_def run_async_on_def demo_runner_def
          demo_sessions_def new_invocation_context_def demo_config_def effective_message_def
          context_after_append_def passive_plugins_def
          append_new_message_to_session_def greeting_def emit_def append_event_def
          resolve_agent_def Let_def demo_context_def session_of_def)
  have b: "run_before_run_callback passive_plugins ?ctx = None"
    by (simp add: passive_plugins_def)
  have g: "\<And>x. execute failing_agents ?ctx x =
             Emit fragment (Emit answer (Raise (AgentError ''boom'')))"
    by (simp add: execute_def failing_agents_def failing_run_def)
  have c: "run_on_event_callback passive_plugins ?ctx fragment = None"
    "run_on_event_callback passive_plugins ?ctx answer = None"
    by (simp_all add: passive_plugins_def)
  have p: "is_partial fragment" "\<not> is_partial answer"
    by (simp_all add: fragment_def answer_def is_partial_def text_event_def new_event_def)
  note n = exec_with_plugin_normal[OF b, of "execute failing_agents" ?st]
  have e: "actions_done (run_async demo_runner failing_agents ''e-1'' ''u1'' ''s1''
              (Some greeting) None demo_config) =
        [GetSession ''app'' ''u1'' ''s1'', OnUserMessageCallback (Some greeting),
         AppendEvent (user_event ''e-1'' greeting None),
         BeforeRunCallback, ExecuteFn ?ctx ?s1,
         OnEventCallback fragment, YieldEvent fragment,
         AppendEvent answer, OnEventCallback answer, YieldEvent answer]"
    unfolding run
    using n(1) c p by (simp add: finish_def g spec_event_steps_def)
  show "yielded (actions_done
      (run_async demo_runner failing_agents ''e-1'' ''u1'' ''s1'' (Some greeting) None demo_config))
     = [fragment, answer]"
    unfolding e by simp
  show "raised (run_async demo_runner failing_agents ''e-1'' ''u1'' ''s1'' (Some greeting) None demo_config)
     = Some (AgentError ''boom'')"
    unfolding run using n(3) by (simp add: finish_def g)
qed

theorem blocking_run_reyields_run_async_witness:
  "rtranclp bridge_step
     (run demo_runner failing_agents ''e-1'' ''u1'' ''s1'' (Some greeting) demo_config)
     (run_schedule [True, True, False, False, True, False, True, False]
        (run demo_runner failing_agents ''e-1'' ''u1'' ''s1'' (Some greeting) demo_config))
   \<and> raised (run_async demo_runner failing_agents ''e-1'' ''u1'' ''s1'' (Some greeting) None demo_config)
       = Some (AgentError ''boom'')
   \<and> consumer (run_schedule [True, True, False, False, True, False, True, False]
        (run demo_runner failing_agents ''e-1'' ''u1'' ''s1'' (Some greeting) demo_config))
       = Returned None
   \<and> reyielded (run_schedule [True, True, False, False, True, False, True, False]
        (run demo_runner failing_agents ''e-1'' ''u1'' ''s1'' (Some greeting) demo_config))
       = [fragment, answer]"
proof -
  let ?start = "run demo_runner failing_agents ''e-1'' ''u1'' ''s1'' (Some greeting) demo_config"
  let ?end = "run_schedule [True, True, False, False, True, False, True, False] ?start"
  have r: "rtranclp bridge_step ?start ?end" by (rule run_schedule_reachable)
  have s: "?start = \<lparr>thread = Invoking [fragment, answer] (Some (AgentError ''boom'')),
                      event_queue = [], consumer = Getting, reyielded = []\<rparr>"
    by (simp add: run_def bridge_start_def failing_run_async)
  have c: "consumer ?end = Returned None"
    unfolding s by (simp add: worker_step_def caller_step_def)
  from blocking_run_reyields_run_async[of demo_runner failing_agents "''e-1''" "''u1''" "''s1''"
         "Some greeting" demo_config] r
  have "consumer ?end \<noteq> Getting \<longrightarrow>
          reyielded ?end = yielded (actions_done
            (run_async demo_runner failing_agents ''e-1'' ''u1'' ''s1'' (Some greeting) None demo_config))"
    by blast
  with c have "reyielded ?end = [fragment, answer]"
    by (simp add: failing_run_async(1))
  with r c failing_run_async(2) show ?thesis by blast
qed

section \<open>Closing the runner: proofs\<close>














end
